theory Spec2Isabelle
  imports Main "HOL-Library.Multiset"
begin

section \<open>JavaScript strings and JSON values\<close>

text \<open>
  A JavaScript string is a sequence of UTF-16 code units. A code unit is modelled as a
  natural number, so that every character the language-model gateway can return, and every
  \<^verbatim>\<open>\uXXXX\<close> escape of a JSON text, has a value. \<open>js\<close> turns an ASCII literal into
  such a string.
\<close>

type_synonym jsstring = "nat list"

definition js :: "string \<Rightarrow> jsstring" where
  "js s = map of_char s"

text \<open>
  The values \<^verbatim>\<open>JSON.parse\<close> produces. A number keeps the text of its literal (the
  double it denotes is a function of that text); an object keeps its members in the order
  of the text, duplicates included.
\<close>

datatype json =
    JNull
  | JBool bool
  | JNumber jsstring
  | JString jsstring
  | JArray "json list"
  | JObject "(jsstring \<times> json) list"

text \<open>
  Reading a property of a parsed value. \<^verbatim>\<open>JSON.parse\<close> lets a later duplicate of a key
  overwrite an earlier one, so the last binding is the value. The engine reads only the
  names \<^verbatim>\<open>spec\<close> and \<^verbatim>\<open>missingSections\<close>, which no array, string, number or boolean
  has: there the result is \<^verbatim>\<open>undefined\<close> (\<open>None\<close>). Reading a property of
  \<^verbatim>\<open>null\<close> raises a TypeError, which the caller of \<open>get_prop\<close> decides before.
\<close>

fun get_prop :: "json \<Rightarrow> jsstring \<Rightarrow> json option" where
  "get_prop (JObject kvs) k = map_of (rev kvs) k"
| "get_prop _ k = None"

section \<open>\<^verbatim>\<open>JSON.parse\<close>\<close>

text \<open>
  The grammar of ECMA-404, read one code unit at a time by a pushdown automaton: the
  lexical state says what may come next, the stack holds the arrays and objects that are
  still open. Reading never looks ahead and never goes back, so the parser is total by
  structural recursion on the text.
\<close>

datatype frame =
    InArray "json list"
  | InObject "(jsstring \<times> json) list"
  | InMember "(jsstring \<times> json) list" jsstring

datatype numst = NMinus | NZero | NInt | NDot | NFrac | NE | NESign | NExp

datatype lexst =
    LValue
  | LArrayOpen
  | LObjectOpen
  | LKey
  | LColon
  | LAfter
  | LString bool jsstring
  | LEscape bool jsstring
  | LUnicode bool jsstring "nat list"
  | LNumber numst jsstring
  | LLiteral jsstring json

datatype pstate = Run lexst "frame list" | Finished json | Failed

definition json_ws :: "nat \<Rightarrow> bool" where
  "json_ws c = (c = 9 \<or> c = 10 \<or> c = 13 \<or> c = 32)"

definition is_digit :: "nat \<Rightarrow> bool" where
  "is_digit c = (48 \<le> c \<and> c \<le> 57)"

definition hex_value :: "nat \<Rightarrow> nat option" where
  "hex_value c =
     (if 48 \<le> c \<and> c \<le> 57 then Some (c - 48)
      else if 97 \<le> c \<and> c \<le> 102 then Some (c - 87)
      else if 65 \<le> c \<and> c \<le> 70 then Some (c - 55)
      else None)"

text \<open>A finished value goes to the innermost open container, or ends the text.\<close>

fun deliver :: "json \<Rightarrow> frame list \<Rightarrow> pstate" where
  "deliver v [] = Finished v"
| "deliver v (InArray xs # st) = Run LAfter (InArray (v # xs) # st)"
| "deliver v (InMember ms k # st) = Run LAfter (InObject ((k, v) # ms) # st)"
| "deliver v (InObject ms # st) = Failed"

definition begin_value :: "nat \<Rightarrow> frame list \<Rightarrow> pstate" where
  "begin_value c st =
     (if c = 123 then Run LObjectOpen (InObject [] # st)
      else if c = 91 then Run LArrayOpen (InArray [] # st)
      else if c = 34 then Run (LString False []) st
      else if c = 45 then Run (LNumber NMinus [c]) st
      else if c = 48 then Run (LNumber NZero [c]) st
      else if 49 \<le> c \<and> c \<le> 57 then Run (LNumber NInt [c]) st
      else if c = 116 then Run (LLiteral (js ''rue'') (JBool True)) st
      else if c = 102 then Run (LLiteral (js ''alse'') (JBool False)) st
      else if c = 110 then Run (LLiteral (js ''ull'') JNull) st
      else Failed)"

definition close_array :: "frame list \<Rightarrow> pstate" where
  "close_array st =
     (case st of InArray xs # st' \<Rightarrow> deliver (JArray (rev xs)) st' | _ \<Rightarrow> Failed)"

definition close_object :: "frame list \<Rightarrow> pstate" where
  "close_object st =
     (case st of InObject ms # st' \<Rightarrow> deliver (JObject (rev ms)) st' | _ \<Rightarrow> Failed)"

definition after_value :: "nat \<Rightarrow> frame list \<Rightarrow> pstate" where
  "after_value c st =
     (if json_ws c then Run LAfter st
      else if c = 44 then
        (case st of
           InArray xs # st' \<Rightarrow> Run LValue st
         | InObject ms # st' \<Rightarrow> Run LKey st
         | _ \<Rightarrow> Failed)
      else if c = 93 then close_array st
      else if c = 125 then close_object st
      else Failed)"

definition after_text :: "nat \<Rightarrow> json \<Rightarrow> pstate" where
  "after_text c v = (if json_ws c then Finished v else Failed)"

text \<open>
  The number grammar \<^verbatim>\<open>-? (0 | [1-9][0-9]*) (. [0-9]+)? ([eE] [+-]? [0-9]+)?\<close>:
  \<open>number_next\<close> is the state after one more code unit of the literal, \<open>number_done\<close>
  says where a literal may end.
\<close>

fun number_next :: "numst \<Rightarrow> nat \<Rightarrow> numst option" where
  "number_next NMinus c =
     (if c = 48 then Some NZero else if 49 \<le> c \<and> c \<le> 57 then Some NInt else None)"
| "number_next NZero c =
     (if c = 46 then Some NDot else if c = 101 \<or> c = 69 then Some NE else None)"
| "number_next NInt c =
     (if is_digit c then Some NInt else if c = 46 then Some NDot
      else if c = 101 \<or> c = 69 then Some NE else None)"
| "number_next NDot c = (if is_digit c then Some NFrac else None)"
| "number_next NFrac c =
     (if is_digit c then Some NFrac else if c = 101 \<or> c = 69 then Some NE else None)"
| "number_next NE c =
     (if c = 43 \<or> c = 45 then Some NESign else if is_digit c then Some NExp else None)"
| "number_next NESign c = (if is_digit c then Some NExp else None)"
| "number_next NExp c = (if is_digit c then Some NExp else None)"

fun number_done :: "numst \<Rightarrow> bool" where
  "number_done NZero = True"
| "number_done NInt = True"
| "number_done NFrac = True"
| "number_done NExp = True"
| "number_done _ = False"

definition end_string :: "bool \<Rightarrow> jsstring \<Rightarrow> frame list \<Rightarrow> pstate" where
  "end_string is_key s st =
     (if is_key then
        (case st of InObject ms # st' \<Rightarrow> Run LColon (InMember ms s # st') | _ \<Rightarrow> Failed)
      else deliver (JString s) st)"

definition escape_value :: "nat \<Rightarrow> nat option" where
  "escape_value c =
     (if c = 34 then Some 34
      else if c = 92 then Some 92
      else if c = 47 then Some 47
      else if c = 98 then Some 8
      else if c = 102 then Some 12
      else if c = 110 then Some 10
      else if c = 114 then Some 13
      else if c = 116 then Some 9
      else None)"

fun lex_step :: "lexst \<Rightarrow> frame list \<Rightarrow> nat \<Rightarrow> pstate" where
  "lex_step LValue st c = (if json_ws c then Run LValue st else begin_value c st)"
| "lex_step LArrayOpen st c =
     (if json_ws c then Run LArrayOpen st
      else if c = 93 then close_array st
      else begin_value c st)"
| "lex_step LObjectOpen st c =
     (if json_ws c then Run LObjectOpen st
      else if c = 125 then close_object st
      else if c = 34 then Run (LString True []) st
      else Failed)"
| "lex_step LKey st c =
     (if json_ws c then Run LKey st
      else if c = 34 then Run (LString True []) st
      else Failed)"
| "lex_step LColon st c =
     (if json_ws c then Run LColon st
      else if c = 58 then Run LValue st
      else Failed)"
| "lex_step LAfter st c = after_value c st"
| "lex_step (LString k acc) st c =
     (if c = 34 then end_string k (rev acc) st
      else if c = 92 then Run (LEscape k acc) st
      else if c < 32 then Failed
      else Run (LString k (c # acc)) st)"
| "lex_step (LEscape k acc) st c =
     (if c = 117 then Run (LUnicode k acc []) st
      else (case escape_value c of
              Some e \<Rightarrow> Run (LString k (e # acc)) st
            | None \<Rightarrow> Failed))"
| "lex_step (LUnicode k acc ds) st c =
     (case hex_value c of
        None \<Rightarrow> Failed
      | Some d \<Rightarrow>
          (if length ds = 3
           then Run (LString k (foldl (\<lambda>a h. 16 * a + h) 0 (ds @ [d]) # acc)) st
           else Run (LUnicode k acc (ds @ [d])) st))"
| "lex_step (LNumber ns acc) st c =
     (case number_next ns c of
        Some ns' \<Rightarrow> Run (LNumber ns' (c # acc)) st
      | None \<Rightarrow>
          (if number_done ns then
             (case deliver (JNumber (rev acc)) st of
                Finished v \<Rightarrow> after_text c v
              | Run l st' \<Rightarrow> after_value c st'
              | Failed \<Rightarrow> Failed)
           else Failed))"
| "lex_step (LLiteral rest v) st c =
     (case rest of
        [] \<Rightarrow> Failed
      | x # xs \<Rightarrow>
          (if c = x then (if xs = [] then deliver v st else Run (LLiteral xs v) st)
           else Failed))"

fun parse_step :: "pstate \<Rightarrow> nat \<Rightarrow> pstate" where
  "parse_step (Run l st) c = lex_step l st c"
| "parse_step (Finished v) c = after_text c v"
| "parse_step Failed c = Failed"

text \<open>The end of the text: a value is there, or a number literal that may end here.\<close>

fun parse_end :: "pstate \<Rightarrow> json option" where
  "parse_end (Finished v) = Some v"
| "parse_end (Run (LNumber ns acc) []) =
     (if number_done ns then Some (JNumber (rev acc)) else None)"
| "parse_end _ = None"

text \<open>\<open>None\<close> is the SyntaxError that \<^verbatim>\<open>JSON.parse\<close> throws.\<close>

definition JSON_parse :: "jsstring \<Rightarrow> json option" where
  "JSON_parse s = parse_end (foldl parse_step (Run LValue []) s)"

section \<open>The data model\<close>

datatype Role = User | Assistant | System

text \<open>
  A message of the conversation. The session manager calls \<^verbatim>\<open>toISOString\<close> on the
  timestamp, so it is a date: the milliseconds since the epoch. The metadata, when there,
  is an object, given by its members.
\<close>

record Message =
  message_id :: jsstring
  role :: Role
  content :: jsstring
  timestamp :: int
  metadata :: "(jsstring \<times> json) list option"

record Specification =
  spec_id :: jsstring
  version :: int
  plainEnglishSummary :: json
  formalPRD :: json
  lastUpdated :: int

datatype exn =
    GatewayError
  | SyntaxError
  | TypeError
  | DbError
  | Error string

section \<open>The PRD engine\<close>

datatype PRDEngineInput =
    UpdateInput Specification "Message list" bool
  | FinalizeInput Specification

fun currentSpec :: "PRDEngineInput \<Rightarrow> Specification" where
  "currentSpec (UpdateInput s ms first) = s"
| "currentSpec (FinalizeInput s) = s"

text \<open>
  The \<^verbatim>\<open>spec\<close> of the output is declared a \<^verbatim>\<open>Specification\<close>; at run time it is the
  input's specification, or whatever the parsed response has under \<^verbatim>\<open>spec\<close>, or
  \<^verbatim>\<open>undefined\<close> when it has nothing there.
\<close>

datatype spec_value = InputSpec Specification | ParsedSpec json | Undefined

record PRDEngineOutput =
  spec :: spec_value
  missingSections :: "json list"

text \<open>
  The two prompts are template strings. What they interpolate from the input is the
  summary of the current specification and, in update mode, the role and content of the
  new messages; \<^verbatim>\<open>isFirstRun\<close> is only logged. The gateway is a black box from the
  prompt to a text, or to the failure of the call.
\<close>

datatype prompt =
    UpdatePrompt json "(Role \<times> jsstring) list"
  | FinalizePrompt json

fun buildUpdatePrompt :: "Specification \<Rightarrow> Message list \<Rightarrow> prompt" where
  "buildUpdatePrompt s ms = UpdatePrompt (plainEnglishSummary s) (map (\<lambda>m. (role m, content m)) ms)"

fun buildFinalizePrompt :: "Specification \<Rightarrow> prompt" where
  "buildFinalizePrompt s = FinalizePrompt (plainEnglishSummary s)"

type_synonym LLMRouter = "prompt \<Rightarrow> exn + jsstring"

text \<open>
  \<^verbatim>\<open>String.prototype.trim\<close> and the class \<^verbatim>\<open>\s\<close> of a regular expression remove the
  same code units: the white space and the line terminators of ECMAScript.
\<close>

definition js_space :: "nat \<Rightarrow> bool" where
  "js_space c =
     (c = 9 \<or> c = 10 \<or> c = 11 \<or> c = 12 \<or> c = 13 \<or> c = 32 \<or> c = 160 \<or> c = 5760
      \<or> (8192 \<le> c \<and> c \<le> 8202) \<or> c = 8232 \<or> c = 8233 \<or> c = 8239 \<or> c = 8287
      \<or> c = 12288 \<or> c = 65279)"

definition trim :: "jsstring \<Rightarrow> jsstring" where
  "trim s = rev (dropWhile js_space (rev (dropWhile js_space s)))"

definition startsWith :: "jsstring \<Rightarrow> jsstring \<Rightarrow> bool" where
  "startsWith s p = (take (length p) s = p)"

text \<open>
  \<^verbatim>\<open>.replace(/^```(?:json)?\s*/, '')\<close>: at the start of the text, three backticks, then
  \<^verbatim>\<open>json\<close> if it is there, then all the white space that follows. A text that does not
  start with three backticks has no match and stays as it is.
\<close>

definition replace_opening_fence :: "jsstring \<Rightarrow> jsstring" where
  "replace_opening_fence s =
     (if startsWith s (js ''```'') then
        (let r = drop 3 s;
             r' = (if startsWith r (js ''json'') then drop 4 r else r)
         in dropWhile js_space r')
      else s)"

text \<open>
  \<^verbatim>\<open>.replace(/```\s*$/, '')\<close>: the leftmost place where three backticks are followed by
  white space only, up to the end of the text; the text is cut there. Without such a
  place nothing is replaced.
\<close>

fun replace_closing_fence :: "jsstring \<Rightarrow> jsstring" where
  "replace_closing_fence [] = []"
| "replace_closing_fence (c # cs) =
     (if startsWith (c # cs) (js ''```'') \<and> list_all js_space (drop 3 (c # cs)) then []
      else c # replace_closing_fence cs)"

definition strip_fences :: "jsstring \<Rightarrow> jsstring" where
  "strip_fences response =
     (let jsonContent = trim response
      in if startsWith jsonContent (js ''```'')
         then replace_closing_fence (replace_opening_fence jsonContent)
         else jsonContent)"

text \<open>
  \<^verbatim>\<open>Array.prototype.join\<close> turns every element but \<^verbatim>\<open>null\<close> into a string. For a
  parsed value this throws a TypeError exactly on an object that has a member named
  \<^verbatim>\<open>toString\<close> (a member is never callable, and \<^verbatim>\<open>valueOf\<close> gives no primitive),
  also inside nested arrays, which are joined in turn.
\<close>

fun to_string_throws :: "json \<Rightarrow> bool" where
  "to_string_throws (JObject kvs) = (js ''toString'' \<in> set (map fst kvs))"
| "to_string_throws (JArray xs) = (\<exists>x \<in> set xs. to_string_throws x)"
| "to_string_throws _ = False"

text \<open>
  Lines 86 to 91: the log line reads \<^verbatim>\<open>result.missingSections?.join(', ')\<close>, which
  throws a TypeError when \<^verbatim>\<open>result\<close> is \<^verbatim>\<open>null\<close>, when the member is there and is
  not an array (it has no callable \<^verbatim>\<open>join\<close>), and when joining throws. Otherwise the
  member is an array, or it is missing or \<^verbatim>\<open>null\<close> and \<^verbatim>\<open>|| []\<close> replaces it.
\<close>

definition read_result :: "json \<Rightarrow> exn + PRDEngineOutput" where
  "read_result result =
     (if result = JNull then Inl TypeError
      else
        (let spec_member =
               (case get_prop result (js ''spec'') of
                  None \<Rightarrow> Undefined
                | Some v \<Rightarrow> ParsedSpec v)
         in case get_prop result (js ''missingSections'') of
              None \<Rightarrow> Inr \<lparr>spec = spec_member, missingSections = []\<rparr>
            | Some JNull \<Rightarrow> Inr \<lparr>spec = spec_member, missingSections = []\<rparr>
            | Some (JArray xs) \<Rightarrow>
                (if \<exists>x \<in> set xs. to_string_throws x then Inl TypeError
                 else Inr \<lparr>spec = spec_member, missingSections = xs\<rparr>)
            | Some _ \<Rightarrow> Inl TypeError))"

text \<open>The body of the \<^verbatim>\<open>try\<close> block, lines 65 to 91.\<close>

definition synthesize_try :: "LLMRouter \<Rightarrow> prompt \<Rightarrow> exn + PRDEngineOutput" where
  "synthesize_try llmRouter p =
     (case llmRouter p of
        Inl e \<Rightarrow> Inl e
      | Inr response \<Rightarrow>
          (case JSON_parse (strip_fences response) of
             None \<Rightarrow> Inl SyntaxError
           | Some result \<Rightarrow> read_result result))"

definition fallback_sections :: "json list" where
  "fallback_sections =
     map (\<lambda>s. JString (js s)) [''overview'', ''targetUsers'', ''keyFeatures'', ''flows'']"

text \<open>
  \<^verbatim>\<open>synthesize\<close>: the prompt is built outside the \<^verbatim>\<open>try\<close>; whatever is thrown
  inside is caught and answered with the input's specification. \<open>Inl\<close> would be an
  exception that leaves \<^verbatim>\<open>synthesize\<close>.
\<close>

fun build_prompt :: "PRDEngineInput \<Rightarrow> prompt" where
  "build_prompt (UpdateInput s ms first) = buildUpdatePrompt s ms"
| "build_prompt (FinalizeInput s) = buildFinalizePrompt s"

definition synthesize :: "LLMRouter \<Rightarrow> PRDEngineInput \<Rightarrow> exn + PRDEngineOutput" where
  "synthesize llmRouter input =
     (case synthesize_try llmRouter (build_prompt input) of
        Inr out \<Rightarrow> Inr out
      | Inl error \<Rightarrow>
          Inr \<lparr>spec = InputSpec (currentSpec input), missingSections = fallback_sections\<rparr>)"

text \<open>Two gateways for examples: one that answers every prompt with the same text, one that is down.\<close>

definition reply :: "jsstring \<Rightarrow> LLMRouter" where
  "reply r p = Inr r"

definition gateway_down :: LLMRouter where
  "gateway_down p = Inl GatewayError"

text \<open>An example input: a specification with nothing in it yet.\<close>

definition blank_spec :: Specification where
  "blank_spec =
     \<lparr>spec_id = js ''s1'', version = 0, plainEnglishSummary = JObject [],
      formalPRD = JObject [], lastUpdated = 0\<rparr>"

text \<open>
  A payload between code fences, as a model writes it: three backticks and a tag, a line
  feed, the payload, a line feed, three backticks.
\<close>

definition fenced :: "jsstring \<Rightarrow> jsstring \<Rightarrow> jsstring" where
  "fenced tag payload = js ''```'' @ tag @ [10] @ payload @ [10] @ js ''```''"

section \<open>The persistent store\<close>

datatype Status = Active | Abandoned

record session_row =
  s_id :: jsstring
  created_at :: int
  last_accessed_at :: int
  magic_link_token :: "jsstring option"
  status :: Status

record message_row =
  m_id :: jsstring
  m_session_id :: jsstring
  m_role :: Role
  m_content :: jsstring
  m_timestamp :: int
  m_metadata :: "(jsstring \<times> json) list option"

record specification_row =
  sp_id :: jsstring
  sp_session_id :: jsstring
  sp_version :: int
  plain_english_summary :: json
  formal_prd :: json
  progress_state :: json
  sp_created_at :: int
  sp_updated_at :: int

text \<open>
  Modelled from the spec: the schema of the three tables is not part of the sources. The
  store is what section 6 asks for, keyed storage with per-session ordered append and
  latest-version lookup: each table is the list of its rows in the order of insertion, and
  an insert appends a row, with no uniqueness constraint of its own (section 5 counts on
  two snapshots of one version being storable). A JSON column holds the value that was
  serialised into it.

  Every statement sent to the store may fail, for whatever reason: \<open>sql_faults\<close> lists,
  for the statements to come, which of them fail; after the list every statement succeeds.
  \<open>localStorage\<close> is the browser's storage for the offline queues, a list of messages
  under each key; it is \<open>None\<close> where there is no \<^verbatim>\<open>window\<close>.
\<close>

record world =
  sessions :: "session_row list"
  messages :: "message_row list"
  specifications :: "specification_row list"
  sql_faults :: "bool list"
  localStorage :: "(jsstring \<rightharpoonup> Message list) option"

type_synonym 'a promise = "world \<Rightarrow> (exn + 'a) \<times> world"

definition resolve :: "'a \<Rightarrow> 'a promise" where
  "resolve x w = (Inr x, w)"

definition reject :: "exn \<Rightarrow> 'a promise" where
  "reject e w = (Inl e, w)"

text \<open>\<^verbatim>\<open>const x = await m; k(x)\<close>: a rejection of \<open>m\<close> leaves the function at once.\<close>

definition await :: "'a promise \<Rightarrow> ('a \<Rightarrow> 'b promise) \<Rightarrow> 'b promise" where
  "await m k w = (case m w of (Inl e, w1) \<Rightarrow> (Inl e, w1) | (Inr x, w1) \<Rightarrow> k x w1)"

definition sql :: "world \<Rightarrow> bool \<times> world" where
  "sql w =
     (case sql_faults w of
        [] \<Rightarrow> (True, w)
      | f # fs \<Rightarrow> (\<not> f, w\<lparr>sql_faults := fs\<rparr>))"

text \<open>A query reads the tables; an insert or update changes them. A failed statement does neither.\<close>

definition sql_select :: "(world \<Rightarrow> 'a) \<Rightarrow> 'a promise" where
  "sql_select q w = (case sql w of (True, w1) \<Rightarrow> (Inr (q w1), w1) | (False, w1) \<Rightarrow> (Inl DbError, w1))"

definition sql_update :: "(world \<Rightarrow> world) \<Rightarrow> unit promise" where
  "sql_update f w = (case sql w of (True, w1) \<Rightarrow> (Inr (), f w1) | (False, w1) \<Rightarrow> (Inl DbError, w1))"

text \<open>
  \<^verbatim>\<open>ORDER BY version DESC LIMIT 1\<close>: a row of the highest version. Should several rows
  have it, the store may return any of them; the model takes the oldest.
\<close>

fun latest_row :: "specification_row list \<Rightarrow> specification_row option" where
  "latest_row [] = None"
| "latest_row (r # rs) =
     (case latest_row rs of
        None \<Rightarrow> Some r
      | Some b \<Rightarrow> (if sp_version r < sp_version b then Some b else Some r))"

definition session_messages :: "jsstring \<Rightarrow> world \<Rightarrow> message_row list" where
  "session_messages sessionId w = filter (\<lambda>r. m_session_id r = sessionId) (messages w)"

definition session_specifications :: "jsstring \<Rightarrow> world \<Rightarrow> specification_row list" where
  "session_specifications sessionId w = filter (\<lambda>r. sp_session_id r = sessionId) (specifications w)"

text \<open>
  \<^verbatim>\<open>ORDER BY timestamp ASC\<close> names no second key, so the store may return rows of equal
  timestamp in any order. The procedure the store uses is a parameter of every function
  that reads the messages; \<open>timestamp_order\<close> is all that is known of it. \<open>by_timestamp\<close>
  is one such procedure, which keeps rows of equal timestamp in the order of insertion.
\<close>

definition timestamp_order :: "(message_row list \<Rightarrow> message_row list) \<Rightarrow> bool" where
  "timestamp_order ord =
     (\<forall>rows. mset (ord rows) = mset rows \<and> sorted (map m_timestamp (ord rows)))"

definition by_timestamp :: "message_row list \<Rightarrow> message_row list" where
  "by_timestamp rows = sort_key m_timestamp rows"

section \<open>The session manager\<close>

record SessionState =
  conversationHistory :: "Message list"
  specification_st :: Specification
  progress :: json

record Session =
  session_id :: jsstring
  createdAt :: int
  lastAccessedAt :: int
  state :: SessionState
  magicLinkToken :: "jsstring option"

text \<open>The empty specification that \<^verbatim>\<open>createSession\<close> and \<^verbatim>\<open>getSession\<close> write out, member by member.\<close>

definition initial_summary :: json where
  "initial_summary =
     JObject [(js ''overview'', JString []), (js ''keyFeatures'', JArray []),
              (js ''targetUsers'', JString []), (js ''integrations'', JArray [])]"

definition initial_prd :: json where
  "initial_prd =
     JObject [(js ''introduction'', JString []), (js ''glossary'', JObject []),
              (js ''requirements'', JArray []), (js ''nonFunctionalRequirements'', JArray [])]"

definition initial_progress :: json where
  "initial_progress =
     JObject [(js ''topics'', JArray []), (js ''overallCompleteness'', JNumber (js ''0'')),
              (js ''projectComplexity'', JString (js ''Simple''))]"

definition insert_session :: "session_row \<Rightarrow> unit promise" where
  "insert_session r = sql_update (\<lambda>w. w\<lparr>sessions := sessions w @ [r]\<rparr>)"

definition insert_message :: "message_row \<Rightarrow> unit promise" where
  "insert_message r = sql_update (\<lambda>w. w\<lparr>messages := messages w @ [r]\<rparr>)"

definition insert_specification :: "specification_row \<Rightarrow> unit promise" where
  "insert_specification r = sql_update (\<lambda>w. w\<lparr>specifications := specifications w @ [r]\<rparr>)"

text \<open>
  The arguments \<open>sessionId\<close>, \<open>specRowId\<close> and, below, \<open>token\<close> are what
  \<^verbatim>\<open>uuidv4()\<close> returns in the call; \<open>now\<close> is the time of the call, read by
  \<^verbatim>\<open>new Date()\<close> and by \<^verbatim>\<open>NOW()\<close>.
\<close>

definition createSession :: "jsstring \<Rightarrow> jsstring \<Rightarrow> int \<Rightarrow> Session promise" where
  "createSession sessionId specRowId now =
     await (insert_session
              \<lparr>s_id = sessionId, created_at = now, last_accessed_at = now,
               magic_link_token = None, status = Active\<rparr>) (\<lambda>_.
     let spec0 = \<lparr>spec_id = sessionId, version = 0, plainEnglishSummary = initial_summary,
                  formalPRD = initial_prd, lastUpdated = now\<rparr>
     in
     await (insert_specification
              \<lparr>sp_id = specRowId, sp_session_id = sessionId, sp_version = 0,
               plain_english_summary = plainEnglishSummary spec0,
               formal_prd = formalPRD spec0, progress_state = initial_progress,
               sp_created_at = now, sp_updated_at = now\<rparr>) (\<lambda>_.
     resolve
       \<lparr>session_id = sessionId, createdAt = now, lastAccessedAt = now,
        state = \<lparr>conversationHistory = [], specification_st = spec0, progress = initial_progress\<rparr>,
        magicLinkToken = None\<rparr>))"

definition updateLastAccessedTime :: "jsstring \<Rightarrow> int \<Rightarrow> unit promise" where
  "updateLastAccessedTime sessionId now =
     sql_update (\<lambda>w. w\<lparr>sessions :=
       map (\<lambda>r. if s_id r = sessionId then r\<lparr>last_accessed_at := now\<rparr> else r) (sessions w)\<rparr>)"

definition row_message :: "message_row \<Rightarrow> Message" where
  "row_message r =
     \<lparr>message_id = m_id r, role = m_role r, content = m_content r,
      timestamp = m_timestamp r, metadata = m_metadata r\<rparr>"

definition message_row_of :: "jsstring \<Rightarrow> Message \<Rightarrow> message_row" where
  "message_row_of sessionId m =
     \<lparr>m_id = message_id m, m_session_id = sessionId, m_role = role m, m_content = content m,
      m_timestamp = timestamp m, m_metadata = metadata m\<rparr>"

text \<open>\<^verbatim>\<open>sessionRow.magic_link_token || undefined\<close>: no token, or an empty one, is \<^verbatim>\<open>undefined\<close>.\<close>

definition or_undefined :: "jsstring option \<Rightarrow> jsstring option" where
  "or_undefined t = (case t of None \<Rightarrow> None | Some x \<Rightarrow> (if x = [] then None else Some x))"

definition getSession ::
  "(message_row list \<Rightarrow> message_row list) \<Rightarrow> jsstring \<Rightarrow> int \<Rightarrow> Session option promise" where
  "getSession ord sessionId now =
     await (sql_select (\<lambda>w. filter (\<lambda>r. s_id r = sessionId) (sessions w))) (\<lambda>sessionResult.
     case sessionResult of
       [] \<Rightarrow> resolve None
     | sessionRow # _ \<Rightarrow>
         await (sql_select (\<lambda>w. ord (session_messages sessionId w))) (\<lambda>messagesResult.
         await (sql_select (\<lambda>w. latest_row (session_specifications sessionId w))) (\<lambda>specResult.
         let sessionState =
               (case specResult of
                  Some specRow \<Rightarrow>
                    \<lparr>conversationHistory = map row_message messagesResult,
                     specification_st =
                       \<lparr>spec_id = sessionId, version = sp_version specRow,
                        plainEnglishSummary = plain_english_summary specRow,
                        formalPRD = formal_prd specRow, lastUpdated = sp_updated_at specRow\<rparr>,
                     progress = progress_state specRow\<rparr>
                | None \<Rightarrow>
                    \<lparr>conversationHistory = map row_message messagesResult,
                     specification_st =
                       \<lparr>spec_id = sessionId, version = 0,
                        plainEnglishSummary = initial_summary,
                        formalPRD = initial_prd, lastUpdated = created_at sessionRow\<rparr>,
                     progress = initial_progress\<rparr>)
         in
         await (updateLastAccessedTime sessionId now) (\<lambda>_.
         resolve (Some
           \<lparr>session_id = s_id sessionRow, createdAt = created_at sessionRow,
            lastAccessedAt = last_accessed_at sessionRow, state = sessionState,
            magicLinkToken = or_undefined (magic_link_token sessionRow)\<rparr>)))))"

fun insert_messages :: "jsstring \<Rightarrow> Message list \<Rightarrow> unit promise" where
  "insert_messages sessionId [] w = resolve () w"
| "insert_messages sessionId (m # ms) w =
     await (insert_message (message_row_of sessionId m)) (\<lambda>_. insert_messages sessionId ms) w"

definition saveSessionState :: "jsstring \<Rightarrow> jsstring \<Rightarrow> SessionState \<Rightarrow> int \<Rightarrow> unit promise" where
  "saveSessionState specRowId sessionId sessionState now =
     await (sql_select (\<lambda>w. map m_id (session_messages sessionId w))) (\<lambda>existingMessagesResult.
     let existingMessageIds = set existingMessagesResult;
         newMessages = filter (\<lambda>msg. message_id msg \<notin> existingMessageIds)
                         (conversationHistory sessionState)
     in
     await (insert_messages sessionId newMessages) (\<lambda>_.
     await (sql_select (\<lambda>w. latest_row (session_specifications sessionId w))) (\<lambda>currentSpecResult.
     let currentVersion = (case currentSpecResult of Some r \<Rightarrow> sp_version r | None \<Rightarrow> - 1)
     in
     await (if version (specification_st sessionState) \<noteq> currentVersion
            then insert_specification
                   \<lparr>sp_id = specRowId, sp_session_id = sessionId,
                    sp_version = version (specification_st sessionState),
                    plain_english_summary = plainEnglishSummary (specification_st sessionState),
                    formal_prd = formalPRD (specification_st sessionState),
                    progress_state = progress sessionState,
                    sp_created_at = now, sp_updated_at = now\<rparr>
            else resolve ()) (\<lambda>_.
     updateLastAccessedTime sessionId now))))"

definition generateMagicLink :: "jsstring \<Rightarrow> jsstring \<Rightarrow> jsstring promise" where
  "generateMagicLink token sessionId =
     await (sql_update (\<lambda>w. w\<lparr>sessions :=
              map (\<lambda>r. if s_id r = sessionId then r\<lparr>magic_link_token := Some token\<rparr> else r)
                (sessions w)\<rparr>)) (\<lambda>_.
     resolve token)"

text \<open>
  \<^verbatim>\<open>WHERE magic_link_token = token LIMIT 1\<close>: a row that holds the token; the model
  takes the oldest, should several hold it.
\<close>

definition restoreSessionFromMagicLink ::
  "(message_row list \<Rightarrow> message_row list) \<Rightarrow> jsstring \<Rightarrow> int \<Rightarrow> Session promise" where
  "restoreSessionFromMagicLink ord token now =
     await (sql_select (\<lambda>w. take 1 (filter (\<lambda>r. magic_link_token r = Some token) (sessions w))))
       (\<lambda>result.
     case result of
       [] \<Rightarrow> reject (Error ''Invalid or expired magic link token'')
     | row # _ \<Rightarrow>
         await (getSession ord (s_id row) now) (\<lambda>session.
         case session of
           None \<Rightarrow> reject (Error ''Session not found'')
         | Some s \<Rightarrow> resolve s))"

definition abandonSession :: "jsstring \<Rightarrow> unit promise" where
  "abandonSession sessionId =
     sql_update (\<lambda>w. w\<lparr>sessions :=
       map (\<lambda>r. if s_id r = sessionId then r\<lparr>status := Abandoned\<rparr> else r) (sessions w)\<rparr>)"

subsection \<open>The offline queue\<close>






text \<open>A sequence of calls of \<^verbatim>\<open>saveSessionState\<close> for one session, failed calls included.\<close>

fun save_all :: "jsstring \<Rightarrow> (jsstring \<times> SessionState \<times> int) list \<Rightarrow> world \<Rightarrow> world" where
  "save_all sessionId [] w = w"
| "save_all sessionId ((specRowId, sessionState, now) # calls) w =
     save_all sessionId calls (snd (saveSessionState specRowId sessionId sessionState now w))"

text \<open>Examples: an empty store that answers every statement, in a browser or not.\<close>

definition empty_world :: world where
  "empty_world =
     \<lparr>sessions = [], messages = [], specifications = [], sql_faults = [],
      localStorage = None\<rparr>"

section \<open>Notions for the claims\<close>

text \<open>
  The messages of a state that \<^verbatim>\<open>saveSessionState\<close> finds new, the version it compares
  with (\<open>- 1\<close> when the session has no snapshot), and the snapshot row it writes.
\<close>

definition new_messages :: "jsstring \<Rightarrow> SessionState \<Rightarrow> world \<Rightarrow> Message list" where
  "new_messages sid st w =
     filter (\<lambda>msg. message_id msg \<notin> set (map m_id (session_messages sid w))) (conversationHistory st)"

definition current_version :: "jsstring \<Rightarrow> world \<Rightarrow> int" where
  "current_version sid w =
     (case latest_row (session_specifications sid w) of Some r \<Rightarrow> sp_version r | None \<Rightarrow> - 1)"

definition snapshot_row :: "jsstring \<Rightarrow> jsstring \<Rightarrow> SessionState \<Rightarrow> int \<Rightarrow> specification_row" where
  "snapshot_row rid sid st now =
     \<lparr>sp_id = rid, sp_session_id = sid, sp_version = version (specification_st st),
      plain_english_summary = plainEnglishSummary (specification_st st),
      formal_prd = formalPRD (specification_st st), progress_state = progress st,
      sp_created_at = now, sp_updated_at = now\<rparr>"

text \<open>What is stored for a session: the versions of its snapshots and the ids of its messages, oldest first.\<close>

definition stored_versions :: "jsstring \<Rightarrow> world \<Rightarrow> int list" where
  "stored_versions sid w = map sp_version (session_specifications sid w)"

definition stored_ids :: "jsstring \<Rightarrow> world \<Rightarrow> jsstring list" where
  "stored_ids sid w = map m_id (session_messages sid w)"

definition call_version :: "jsstring \<times> SessionState \<times> int \<Rightarrow> int" where
  "call_version c = version (specification_st (fst (snd c)))"

text \<open>The highest stored version is the version of exactly one snapshot.\<close>

definition single_latest :: "int list \<Rightarrow> bool" where
  "single_latest vs = (vs = [] \<or> count_list vs (Max (set vs)) = 1)"

text \<open>
  Examples: a store with one session just created; two messages, the second written
  before the first; a state with a given version and history; the history that a read
  returned; a third message, written after both; a browser whose session has the first
  message stored, with an empty offline queue, with the second message queued, and with
  the first (sent before, still queued) and the third queued.
\<close>

definition demo_world :: world where
  "demo_world = snd (createSession (js ''s1'') (js ''r1'') 1 empty_world)"

definition msg1 :: Message where
  "msg1 = \<lparr>message_id = js ''m1'', role = User, content = js ''hello'', timestamp = 5, metadata = None\<rparr>"

definition msg2 :: Message where
  "msg2 = \<lparr>message_id = js ''m2'', role = User, content = js ''offline'', timestamp = 3, metadata = None\<rparr>"

definition state_at :: "int \<Rightarrow> Message list \<Rightarrow> SessionState" where
  "state_at v ms = \<lparr>conversationHistory = ms, specification_st = blank_spec\<lparr>version := v\<rparr>, progress = JNull\<rparr>"

definition returned_history :: "(exn + Session option) \<times> world \<Rightarrow> Message list option" where
  "returned_history res =
     (case fst res of Inr (Some s) \<Rightarrow> Some (conversationHistory (state s)) | _ \<Rightarrow> None)"





section \<open>Invariants used in the proofs\<close>

text \<open>
  Inside a literal (\<^verbatim>\<open>true\<close>, \<^verbatim>\<open>false\<close>, \<^verbatim>\<open>null\<close>) the parser waits for letters,
  never for white space. Every state it reaches from the start has this shape.
\<close>

fun lex_ok :: "lexst \<Rightarrow> bool" where
  "lex_ok (LLiteral rest v) = (\<forall>c \<in> set rest. \<not> js_space c)"
| "lex_ok _ = True"

fun state_ok :: "pstate \<Rightarrow> bool" where
  "state_ok (Run l st) = lex_ok l"
| "state_ok _ = True"

section \<open>Properties of \<^verbatim>\<open>JSON.parse\<close> and of the fence removal\<close>

lemmas parse_defs = JSON_parse_def js_def json_ws_def begin_value_def close_object_def
  close_array_def after_value_def end_string_def is_digit_def after_text_def hex_value_def
  escape_value_def

lemmas fence_defs = strip_fences_def trim_def startsWith_def replace_opening_fence_def
  js_space_def

lemma json_ws_js_space: "json_ws c \<Longrightarrow> js_space c"
  by (auto simp: json_ws_def js_space_def)

lemma foldl_Failed [simp]: "foldl parse_step Failed s = Failed"
  by (induction s) simp_all

lemma number_next_space: "js_space c \<Longrightarrow> number_next ns c = None"
  by (cases ns) (auto simp: js_space_def is_digit_def)

lemma begin_value_space: "js_space c \<Longrightarrow> begin_value c st = Failed"
  by (auto simp: js_space_def begin_value_def)

lemma begin_value_start: "begin_value c st \<noteq> Failed \<Longrightarrow> \<not> js_space c \<and> c \<noteq> 96"
  by (auto simp: js_space_def begin_value_def split: if_splits)

lemma deliver_ok [simp]: "state_ok (deliver v st)"
  by (induction v st rule: deliver.induct) simp_all

lemma begin_value_ok [simp]: "state_ok (begin_value c st)"
  by (simp add: begin_value_def js_def js_space_def)

lemma after_value_ok [simp]: "state_ok (after_value c st)"
  by (auto simp: after_value_def close_array_def close_object_def split: list.splits frame.splits)

lemma after_text_ok [simp]: "state_ok (after_text c v)"
  by (simp add: after_text_def)

lemma lex_step_ok: "lex_ok l \<Longrightarrow> state_ok (lex_step l st c)"
  by (cases l) (auto simp: close_array_def close_object_def end_string_def
      split: list.splits frame.splits option.splits pstate.splits)

lemma parse_step_ok: "state_ok S \<Longrightarrow> state_ok (parse_step S c)"
  by (cases S) (auto simp: lex_step_ok)

lemma foldl_ok: "state_ok S \<Longrightarrow> state_ok (foldl parse_step S s)"
  by (induction s arbitrary: S) (auto simp: parse_step_ok)

lemma space_step_end:
  assumes "js_space c" "state_ok S" "parse_end (parse_step S c) = Some v"
  shows "parse_end S = Some v \<and> json_ws c"
proof (cases S)
  case (Run l st)
  show ?thesis
  proof (cases l)
    case (LNumber ns acc)
    with Run assms show ?thesis
      by (cases st; cases "hd st")
         (auto simp: number_next_space after_text_def after_value_def js_space_def json_ws_def close_array_def close_object_def
           split: if_splits list.splits frame.splits)
  next
    case (LLiteral rest w)
    with Run assms show ?thesis
      by (auto split: list.splits if_splits)
  qed (use Run assms in \<open>auto simp: begin_value_space after_value_def close_array_def close_object_def js_space_def json_ws_def
          hex_value_def escape_value_def end_string_def
          split: if_splits list.splits frame.splits option.splits\<close>)
next
  case (Finished x2)
  with assms show ?thesis by (auto simp: after_text_def split: if_splits)
next
  case Failed
  with assms show ?thesis by simp
qed

lemma space_run_end:
  "list_all js_space w \<Longrightarrow> state_ok S \<Longrightarrow> parse_end (foldl parse_step S w) = Some v
   \<Longrightarrow> parse_end S = Some v \<and> list_all json_ws w"
proof (induction w arbitrary: S)
  case Nil
  then show ?case by simp
next
  case (Cons c w)
  from Cons.prems have "parse_end (foldl parse_step (parse_step S c) w) = Some v" by simp
  with Cons.IH [of "parse_step S c"] Cons.prems
  have "parse_end (parse_step S c) = Some v" "list_all json_ws w"
    by (auto simp: parse_step_ok)
  with space_step_end [of c S v] Cons.prems show ?case by simp
qed

lemma ws_step_end:
  "json_ws c \<Longrightarrow> parse_end S = Some v \<Longrightarrow> parse_end (parse_step S c) = Some v"
  by (induction S rule: parse_end.induct)
     (auto simp: after_text_def number_next_space json_ws_js_space split: if_splits)

lemma ws_run_end:
  "list_all json_ws w \<Longrightarrow> parse_end S = Some v \<Longrightarrow> parse_end (foldl parse_step S w) = Some v"
  by (induction w arbitrary: S) (auto simp: ws_step_end)

lemma leading_ws:
  "parse_end (foldl parse_step (Run LValue []) p) = Some v
   \<Longrightarrow> \<exists>core. dropWhile js_space p = core \<and> core \<noteq> [] \<and> hd core \<noteq> 96 \<and>
        foldl parse_step (Run LValue []) core = foldl parse_step (Run LValue []) p"
proof (induction p)
  case Nil
  then show ?case by simp
next
  case (Cons c p)
  show ?case
  proof (cases "json_ws c")
    case True
    with Cons show ?thesis by (simp add: json_ws_js_space)
  next
    case False
    with Cons.prems have "begin_value c [] \<noteq> Failed" by auto
    from begin_value_start [OF this] show ?thesis by simp
  qed
qed

lemma trim_split:
  "hd (dropWhile js_space p) \<noteq> 96 \<Longrightarrow> dropWhile js_space p \<noteq> [] \<Longrightarrow>
   \<exists>w. dropWhile js_space p = trim p @ w \<and> list_all js_space w \<and> trim p \<noteq> [] \<and> hd (trim p) \<noteq> 96"
proof -
  assume h: "hd (dropWhile js_space p) \<noteq> 96" and ne: "dropWhile js_space p \<noteq> []"
  let ?q = "dropWhile js_space p"
  let ?w = "rev (takeWhile js_space (rev ?q))"
  have split: "?q = trim p @ ?w"
    unfolding trim_def by (metis rev_append rev_rev_ident takeWhile_dropWhile_id)
  have sp: "list_all js_space ?w"
    by (simp add: list_all_iff) (meson set_takeWhileD)
  have hdq: "\<not> js_space (hd ?q)" using ne by (metis hd_dropWhile)
  have "trim p \<noteq> []"
  proof
    assume "trim p = []"
    with split have "?q = ?w" by simp
    with sp ne have "js_space (hd ?q)" by (metis list_all_iff hd_in_set)
    with hdq show False by simp
  qed
  moreover from this split have "hd (trim p) = hd ?q" by (metis hd_append2)
  ultimately show ?thesis using split sp h by metis
qed

lemma parse_trim:
  assumes "JSON_parse p = Some v"
  shows "JSON_parse (trim p) = Some v"
    and "list_all json_ws w \<Longrightarrow> JSON_parse (dropWhile js_space p @ w) = Some v"
    and "\<not> startsWith (trim p) (js ''```'')"
    and "\<exists>c cs. dropWhile js_space p = c # cs \<and> \<not> js_space c"
proof -
  let ?init = "Run LValue []"
  from assms have pe: "parse_end (foldl parse_step ?init p) = Some v" by (simp add: JSON_parse_def)
  from leading_ws [OF pe] have core: "dropWhile js_space p \<noteq> []" "hd (dropWhile js_space p) \<noteq> 96"
    and run: "foldl parse_step ?init (dropWhile js_space p) = foldl parse_step ?init p" by auto
  from trim_split [OF core(2) core(1)] obtain w2 where
    w2: "dropWhile js_space p = trim p @ w2" "list_all js_space w2" "trim p \<noteq> []" "hd (trim p) \<noteq> 96"
    by blast
  let ?S = "foldl parse_step ?init (trim p)"
  have ok: "state_ok ?S" by (simp add: foldl_ok)
  from pe run w2(1) have "parse_end (foldl parse_step ?S w2) = Some v" by simp
  from space_run_end [OF w2(2) ok this] have S: "parse_end ?S = Some v" and ws2: "list_all json_ws w2" by auto
  from S show "JSON_parse (trim p) = Some v" by (simp add: JSON_parse_def)
  show "JSON_parse (dropWhile js_space p @ w) = Some v" if "list_all json_ws w"
  proof -
    from that ws2 have "list_all json_ws (w2 @ w)" by simp
    from ws_run_end [OF this S] show ?thesis by (simp add: JSON_parse_def w2(1))
  qed
  from w2(3,4) show "\<not> startsWith (trim p) (js ''```'')"
    by (cases "trim p") (auto simp: startsWith_def js_def)
  from core(1) show "\<exists>c cs. dropWhile js_space p = c # cs \<and> \<not> js_space c"
    by (metis hd_dropWhile list.exhaust_sel)
qed

lemma fence_literal: "js ''```'' = [96, 96, 96]" "js ''json'' = [106, 115, 111, 110]"
  by (simp_all add: js_def)

lemma not_space_96 [simp]: "\<not> js_space 96" "js_space 10" "json_ws 10"
  by (simp_all add: js_space_def json_ws_def)

lemma closing_fence_at_end: "replace_closing_fence (xs @ js ''```'') = xs"
proof (induction xs)
  case Nil
  show ?case by (simp add: fence_literal startsWith_def)
next
  case (Cons c cs)
  have "96 \<in> set (drop 3 (c # cs @ [96, 96, 96]))"
    by (cases cs rule: rev_cases) (simp_all add: drop_Cons')
  then have "\<not> list_all js_space (drop 3 (c # cs @ [96, 96, 96]))"
    unfolding list_all_iff using not_space_96(1) by blast
  with Cons show ?case by (simp add: fence_literal)
qed

lemma trim_fenced: "trim (fenced tag p) = fenced tag p"
proof -
  have "fenced tag p = 96 # ([96, 96] @ tag @ [10] @ p @ [10, 96, 96]) @ [96]"
    by (simp add: fenced_def fence_literal)
  then show ?thesis by (simp add: trim_def)
qed

lemma strip_fenced:
  assumes "tag = [] \<or> tag = js ''json''" and "dropWhile js_space p = c # cs" "\<not> js_space c"
  shows "strip_fences (fenced tag p) = dropWhile js_space p @ [10]"
proof -
  have sw: "startsWith (fenced tag p) (js ''```'')"
    by (simp add: startsWith_def fenced_def fence_literal)
  have dw: "dropWhile js_space (p @ ys) = dropWhile js_space p @ ys" for ys
    using assms(2,3) by (metis dropWhile_append1 dropWhile_eq_Cons_conv list.distinct(1) dropWhile_eq_Nil_conv)
  have "replace_opening_fence (fenced tag p) = dropWhile js_space p @ [10] @ js ''```''"
    using assms(1) by (auto simp: replace_opening_fence_def sw Let_def fenced_def fence_literal startsWith_def dw)
  then show ?thesis
    using closing_fence_at_end [of "dropWhile js_space p @ [10]"]
    by (simp add: strip_fences_def trim_fenced sw Let_def)
qed

section \<open>Claims about the PRD engine\<close>

text \<open>Malformed JSON: \<^verbatim>\<open>JSON.parse\<close> throws, and the catch block answers.\<close>

lemma synthesize_syntax_error_fallback:
  assumes "llmRouter (build_prompt input) = Inr r" and "JSON_parse (strip_fences r) = None"
  shows "synthesize llmRouter input
           = Inr \<lparr>spec = InputSpec (currentSpec input), missingSections = fallback_sections\<rparr>"
  using assms by (simp add: synthesize_def synthesize_try_def)

lemma parse_missing_sections_only:
  "JSON_parse (strip_fences (js ''{\"missingSections\": []}''))
     = Some (JObject [(js ''missingSections'', JArray [])])"
  by (simp add: parse_defs fence_defs)

text \<open>
  C1. The claim: when the response is malformed JSON, or parses to JSON without a
  \<^verbatim>\<open>spec\<close> key, \<^verbatim>\<open>synthesize\<close> returns the unchanged input specification and the
  default list of four missing sections. The code does so for malformed JSON only. On the
  response \<^verbatim>\<open>{"missingSections": []}\<close>, which has no \<^verbatim>\<open>spec\<close> key, nothing is
  thrown, and \<^verbatim>\<open>synthesize\<close> returns \<^verbatim>\<open>undefined\<close> as the specification with an
  empty list, for every input: the input's specification is lost.
\<close>

theorem synthesize_missing_spec_key:
  "synthesize (reply (js ''{\"missingSections\": []}'')) input
     = Inr \<lparr>spec = Undefined, missingSections = []\<rparr>"
  using parse_missing_sections_only
  by (simp add: synthesize_def synthesize_try_def reply_def read_result_def js_def)

text \<open>
  C2. The claim: a failure of the gateway call is not caught by \<^verbatim>\<open>synthesize\<close> and
  reaches the caller. The call is inside the \<^verbatim>\<open>try\<close> block, so its failure is caught
  like every other: with the gateway down, \<^verbatim>\<open>synthesize\<close> returns normally.
\<close>

theorem gateway_failure_is_caught:
  "synthesize gateway_down (FinalizeInput blank_spec)
     = Inr \<lparr>spec = InputSpec blank_spec, missingSections = fallback_sections\<rparr>"
  by (simp add: synthesize_def synthesize_try_def gateway_down_def)

text \<open>
  C2, amended. \<^verbatim>\<open>synthesize\<close> never throws, whatever the gateway does; when the gateway
  call fails, the failure is caught and \<^verbatim>\<open>synthesize\<close> returns the unchanged input
  specification with the default list of missing sections, as it does for malformed
  model output.
\<close>

theorem synthesize_catches_gateway_failure:
  "(\<exists>out. synthesize llmRouter input = Inr out) \<and>
   (llmRouter (build_prompt input) = Inl e \<longrightarrow>
      synthesize llmRouter input
        = Inr \<lparr>spec = InputSpec (currentSpec input), missingSections = fallback_sections\<rparr>)"
  by (simp add: synthesize_def synthesize_try_def split: sum.splits)

theorem synthesize_catches_gateway_failure_witness:
  "gateway_down (build_prompt (UpdateInput blank_spec [] True)) = Inl GatewayError \<and>
   synthesize gateway_down (UpdateInput blank_spec [] True)
     = Inr \<lparr>spec = InputSpec blank_spec, missingSections = fallback_sections\<rparr>"
proof -
  have h: "gateway_down (build_prompt (UpdateInput blank_spec [] True)) = Inl GatewayError"
    by (simp add: gateway_down_def)
  from synthesize_catches_gateway_failure
    [of gateway_down "UpdateInput blank_spec [] True" GatewayError] h
  show ?thesis by simp
qed

text \<open>
  C3. The claim: in finalize mode \<^verbatim>\<open>synthesize\<close> returns an empty list of missing
  sections for every gateway response. The mode decides the prompt only; the response is
  read as in update mode. A finalize response that lists \<^verbatim>\<open>flows\<close> as missing comes
  back with that list.
\<close>

theorem finalize_reports_missing_sections:
  "synthesize (reply (js ''{\"spec\": {}, \"missingSections\": [\"flows\"]}''))
       (FinalizeInput blank_spec)
     = Inr \<lparr>spec = ParsedSpec (JObject []), missingSections = [JString (js ''flows'')]\<rparr>"
  by (simp add: synthesize_def synthesize_try_def reply_def read_result_def
      parse_defs fence_defs)

text \<open>
  C3, amended. In finalize mode, for every gateway response that parses to a JSON value
  other than \<^verbatim>\<open>null\<close> whose \<^verbatim>\<open>missingSections\<close> is absent, \<^verbatim>\<open>null\<close> or the empty
  array (what the finalize prompt asks for), \<^verbatim>\<open>synthesize\<close> returns an empty list of
  missing sections.
\<close>

theorem finalize_missing_sections_empty:
  assumes "llmRouter (build_prompt (FinalizeInput s)) = Inr r"
    and "JSON_parse (strip_fences r) = Some result"
    and "result \<noteq> JNull"
    and "get_prop result (js ''missingSections'') \<in> {None, Some JNull, Some (JArray [])}"
  shows "\<exists>out. synthesize llmRouter (FinalizeInput s) = Inr out \<and> missingSections out = []"
  using assms
  by (auto simp: synthesize_def synthesize_try_def read_result_def)

theorem finalize_missing_sections_empty_witness:
  "JSON_parse (strip_fences (fenced (js ''json'') (js ''{\"spec\": {}, \"missingSections\": []}'')))
     = Some (JObject [(js ''spec'', JObject []), (js ''missingSections'', JArray [])]) \<and>
   (\<exists>out. synthesize (reply (fenced (js ''json'') (js ''{\"spec\": {}, \"missingSections\": []}'')))
            (FinalizeInput blank_spec) = Inr out \<and> missingSections out = [])"
proof -
  let ?r = "fenced (js ''json'') (js ''{\"spec\": {}, \"missingSections\": []}'')"
  let ?v = "JObject [(js ''spec'', JObject []), (js ''missingSections'', JArray [])]"
  have h1: "reply ?r (build_prompt (FinalizeInput blank_spec)) = Inr ?r"
    by (simp add: reply_def)
  have h2: "JSON_parse (strip_fences ?r) = Some ?v"
    by (simp add: fenced_def parse_defs fence_defs)
  have h3: "?v \<noteq> JNull" by simp
  have h4: "get_prop ?v (js ''missingSections'') \<in> {None, Some JNull, Some (JArray [])}"
    by (simp add: js_def)
  from finalize_missing_sections_empty [of "reply ?r" blank_spec ?r ?v, OF h1 h2 h3 h4] h2
  show ?thesis by simp
qed

text \<open>
  C9. The claim: a payload between code fences, with any language tag after the opening
  fence, is read as the payload alone. The opening fence is removed together with the tag
  \<^verbatim>\<open>json\<close> only; after another tag, here \<^verbatim>\<open>js\<close>, the tag stays in front of the
  payload, the text does not parse and the fallback is returned.
\<close>

theorem fence_with_other_tag:
  "synthesize (reply (fenced (js ''js'') (js ''{}''))) (FinalizeInput blank_spec)
     \<noteq> synthesize (reply (js ''{}'')) (FinalizeInput blank_spec)"
  by (simp add: synthesize_def synthesize_try_def reply_def read_result_def fenced_def
      parse_defs fence_defs)

text \<open>
  C9, amended. For every input and every payload that is a JSON text, \<^verbatim>\<open>synthesize\<close>
  applied to the payload between code fences, the opening fence bare or followed by the
  tag \<^verbatim>\<open>json\<close>, returns what it returns for the payload without fences.
\<close>

theorem fenced_payload_parses_alike:
  assumes "JSON_parse payload = Some v" and "tag = [] \<or> tag = js ''json''"
  shows "synthesize (reply (fenced tag payload)) input = synthesize (reply payload) input"
proof -
  from parse_trim(4) [OF assms(1)] obtain c cs where
    d: "dropWhile js_space payload = c # cs" "\<not> js_space c" by blast
  have f: "strip_fences (fenced tag payload) = dropWhile js_space payload @ [10]"
    by (rule strip_fenced [OF assms(2) d])
  have u: "strip_fences payload = trim payload"
    using parse_trim(3) [OF assms(1)] by (simp add: strip_fences_def Let_def)
  have "JSON_parse (strip_fences (fenced tag payload)) = Some v"
    unfolding f by (rule parse_trim(2) [OF assms(1)]) simp
  moreover have "JSON_parse (strip_fences payload) = Some v"
    unfolding u by (rule parse_trim(1) [OF assms(1)])
  ultimately show ?thesis
    by (simp add: synthesize_def synthesize_try_def reply_def)
qed

theorem fenced_payload_parses_alike_witness:
  "JSON_parse (js '' {\"spec\": {\"overview\": \"x\"}, \"missingSections\": [\"flows\"]} '')
     = Some (JObject [(js ''spec'', JObject [(js ''overview'', JString (js ''x''))]),
                      (js ''missingSections'', JArray [JString (js ''flows'')])]) \<and>
   synthesize (reply (fenced (js ''json'')
       (js '' {\"spec\": {\"overview\": \"x\"}, \"missingSections\": [\"flows\"]} '')))
       (UpdateInput blank_spec [] False)
     = synthesize (reply (js '' {\"spec\": {\"overview\": \"x\"}, \"missingSections\": [\"flows\"]} ''))
       (UpdateInput blank_spec [] False)"
proof -
  let ?p = "js '' {\"spec\": {\"overview\": \"x\"}, \"missingSections\": [\"flows\"]} ''"
  have h: "JSON_parse ?p
     = Some (JObject [(js ''spec'', JObject [(js ''overview'', JString (js ''x''))]),
                      (js ''missingSections'', JArray [JString (js ''flows'')])])"
    by (simp add: parse_defs)
  have t: "js ''json'' = [] \<or> js ''json'' = js ''json''" by simp
  from fenced_payload_parses_alike [OF h t, of "UpdateInput blank_spec [] False"] h
  show ?thesis by simp
qed

text \<open>
  C10. When the response parses and the parsed value has no \<^verbatim>\<open>missingSections\<close>
  member, or has \<^verbatim>\<open>null\<close> there, \<^verbatim>\<open>synthesize\<close> returns an empty list of missing
  sections, with whatever the value has under \<^verbatim>\<open>spec\<close>, and not the default list of
  the fallback. (The parsed value is an object, or anything but \<^verbatim>\<open>null\<close>, whose
  properties cannot be read.)
\<close>

theorem missing_sections_default_empty:
  assumes "llmRouter (build_prompt input) = Inr r"
    and "JSON_parse (strip_fences r) = Some result"
    and "result \<noteq> JNull"
    and "get_prop result (js ''missingSections'') = None
         \<or> get_prop result (js ''missingSections'') = Some JNull"
  shows "synthesize llmRouter input
           = Inr \<lparr>spec = (case get_prop result (js ''spec'') of
                             None \<Rightarrow> Undefined | Some v \<Rightarrow> ParsedSpec v),
                   missingSections = []\<rparr>"
  using assms
  by (auto simp: synthesize_def synthesize_try_def read_result_def)

theorem missing_sections_default_empty_witness:
  "JSON_parse (strip_fences (js ''{\"spec\": {\"overview\": \"x\"}}''))
     = Some (JObject [(js ''spec'', JObject [(js ''overview'', JString (js ''x''))])]) \<and>
   synthesize (reply (js ''{\"spec\": {\"overview\": \"x\"}}'')) (UpdateInput blank_spec [] True)
     = Inr \<lparr>spec = ParsedSpec (JObject [(js ''overview'', JString (js ''x''))]),
            missingSections = []\<rparr>"
proof -
  let ?r = "js ''{\"spec\": {\"overview\": \"x\"}}''"
  let ?v = "JObject [(js ''spec'', JObject [(js ''overview'', JString (js ''x''))])]"
  have h1: "reply ?r (build_prompt (UpdateInput blank_spec [] True)) = Inr ?r"
    by (simp add: reply_def)
  have h2: "JSON_parse (strip_fences ?r) = Some ?v"
    by (simp add: parse_defs fence_defs)
  have h3: "?v \<noteq> JNull" by simp
  have h4: "get_prop ?v (js ''missingSections'') = None
            \<or> get_prop ?v (js ''missingSections'') = Some JNull"
    by (simp add: js_def)
  from missing_sections_default_empty
    [of "reply ?r" "UpdateInput blank_spec [] True" ?r ?v, OF h1 h2 h3 h4] h2
  show ?thesis
    by (simp add: js_def)
qed

section \<open>Properties of the store and of the session manager\<close>

lemma sql_shape: "sql w = (b, w') \<Longrightarrow> \<exists>fs. w' = w\<lparr>sql_faults := fs\<rparr>"
  by (auto simp: sql_def split: list.splits intro: exI [of _ "sql_faults w"])

lemma session_messages_faults [simp]:
  "session_messages sid (w\<lparr>sql_faults := fs\<rparr>) = session_messages sid w"
  by (simp add: session_messages_def)

lemma session_specifications_faults [simp]:
  "session_specifications sid (w\<lparr>sql_faults := fs\<rparr>) = session_specifications sid w"
  by (simp add: session_specifications_def)

lemma sql_select_cases:
  assumes "sql_select q w = (r, w')"
  obtains fs where "r = Inr (q (w\<lparr>sql_faults := fs\<rparr>))" "w' = w\<lparr>sql_faults := fs\<rparr>"
  | fs where "r = Inl DbError" "w' = w\<lparr>sql_faults := fs\<rparr>"
proof -
  obtain b w1 where s: "sql w = (b, w1)" by (cases "sql w")
  from sql_shape [OF s] obtain fs where w1: "w1 = w\<lparr>sql_faults := fs\<rparr>" by blast
  show thesis using assms s w1 that by (cases b) (auto simp: sql_select_def)
qed

lemma sql_update_cases:
  assumes "sql_update f w = (r, w')"
  obtains fs where "r = Inr ()" "w' = f (w\<lparr>sql_faults := fs\<rparr>)"
  | fs where "r = Inl DbError" "w' = w\<lparr>sql_faults := fs\<rparr>"
proof -
  obtain b w1 where s: "sql w = (b, w1)" by (cases "sql w")
  from sql_shape [OF s] obtain fs where w1: "w1 = w\<lparr>sql_faults := fs\<rparr>" by blast
  show thesis using assms s w1 that by (cases b) (auto simp: sql_update_def)
qed

lemma await_cases:
  assumes "await m k w = (r, w')"
  obtains e where "m w = (Inl e, w')" "r = Inl e"
  | x w1 where "m w = (Inr x, w1)" "k x w1 = (r, w')"
  using assms by (auto simp: await_def split: prod.splits sum.splits)

lemma insert_messages_effect:
  "insert_messages sid ms w = (r, w') \<Longrightarrow>
     \<exists>k. messages w' = messages w @ map (message_row_of sid) (take k ms) \<and>
         (r = Inr () \<longrightarrow> length ms \<le> k) \<and>
         sessions w' = sessions w \<and> specifications w' = specifications w \<and>
         localStorage w' = localStorage w"
proof (induction ms arbitrary: w)
  case Nil
  then show ?case by (simp add: resolve_def)
next
  case (Cons m ms)
  from Cons.prems have "await (insert_message (message_row_of sid m)) (\<lambda>_. insert_messages sid ms) w = (r, w')"
    by simp
  then show ?case
  proof (cases rule: await_cases)
    case (1 e)
    from 1(1) show ?thesis unfolding insert_message_def
      by (cases rule: sql_update_cases) (use 1 in \<open>auto intro: exI [of _ 0]\<close>)
  next
    case (2 x w1)
    from 2(1) have w1: "messages w1 = messages w @ [message_row_of sid m]"
      "sessions w1 = sessions w" "specifications w1 = specifications w" "localStorage w1 = localStorage w"
      unfolding insert_message_def by (cases rule: sql_update_cases; simp)+
    from Cons.IH [OF 2(2)] obtain k where k: "messages w' = messages w1 @ map (message_row_of sid) (take k ms)"
      "r = Inr () \<longrightarrow> length ms \<le> k" "sessions w' = sessions w1" "specifications w' = specifications w1"
      "localStorage w' = localStorage w1" by blast
    show ?thesis using k w1 by (intro exI [of _ "Suc k"]) simp
  qed
qed

lemma updateLastAccessedTime_effect:
  assumes "updateLastAccessedTime sid now w = (r, w')"
  shows "messages w' = messages w" "specifications w' = specifications w"
    "localStorage w' = localStorage w"
    "map s_id (sessions w') = map s_id (sessions w)"
    "map magic_link_token (sessions w') = map magic_link_token (sessions w)"
  using assms unfolding updateLastAccessedTime_def
  by (cases rule: sql_update_cases; simp add: comp_def; fail)+

lemma saveSessionState_effect:
  assumes "saveSessionState rid sid st now w = (r, w')"
  shows "\<exists>k. messages w' = messages w @ map (message_row_of sid) (take k (new_messages sid st w)) \<and>
             (r = Inr () \<longrightarrow> length (new_messages sid st w) \<le> k)"
    and "specifications w' = specifications w \<or>
         (specifications w' = specifications w @ [snapshot_row rid sid st now] \<and>
          version (specification_st st) \<noteq> current_version sid w)"
    and "r = Inr () \<Longrightarrow> version (specification_st st) \<noteq> current_version sid w \<Longrightarrow>
         specifications w' = specifications w @ [snapshot_row rid sid st now]"
    and "localStorage w' = localStorage w"
    and "map s_id (sessions w') = map s_id (sessions w)"
    and "map magic_link_token (sessions w') = map magic_link_token (sessions w)"
proof -
  let ?new = "new_messages sid st w"
  let ?P = "(\<exists>k. messages w' = messages w @ map (message_row_of sid) (take k ?new) \<and>
             (r = Inr () \<longrightarrow> length ?new \<le> k)) \<and>
     (specifications w' = specifications w \<or>
         (specifications w' = specifications w @ [snapshot_row rid sid st now] \<and>
          version (specification_st st) \<noteq> current_version sid w)) \<and>
     (r = Inr () \<longrightarrow> version (specification_st st) \<noteq> current_version sid w \<longrightarrow>
         specifications w' = specifications w @ [snapshot_row rid sid st now]) \<and>
     localStorage w' = localStorage w \<and>
     map s_id (sessions w') = map s_id (sessions w) \<and>
     map magic_link_token (sessions w') = map magic_link_token (sessions w)"
  have ?P
    using assms unfolding saveSessionState_def Let_def
  proof (cases rule: await_cases)
    case (1 e)
    from 1(1) show ?thesis
      by (cases rule: sql_select_cases) (use 1 in \<open>auto intro: exI [of _ 0]\<close>)
  next
    case (2 ids w1)
    from 2(1) obtain fs where ids: "ids = map m_id (session_messages sid w)" and w1: "w1 = w\<lparr>sql_faults := fs\<rparr>"
      by (cases rule: sql_select_cases) auto
    have new: "filter (\<lambda>msg. message_id msg \<notin> set ids) (conversationHistory st) = ?new"
      by (simp add: ids new_messages_def)
    from 2(2) show ?thesis unfolding new
    proof (cases rule: await_cases)
      case (1 e)
      from insert_messages_effect [OF 1(1)] w1 1(2) show ?thesis by auto
    next
      case (2 u w2)
      from insert_messages_effect [OF 2(1)] w1 obtain k where
        w2: "messages w2 = messages w @ map (message_row_of sid) (take k ?new)" "length ?new \<le> k"
          "sessions w2 = sessions w" "specifications w2 = specifications w" "localStorage w2 = localStorage w"
        by auto
      have sp2: "session_specifications sid w2 = session_specifications sid w"
        by (simp add: session_specifications_def w2)
      from 2(2) show ?thesis
      proof (cases rule: await_cases)
        case (1 e)
        from 1(1) show ?thesis
          by (cases rule: sql_select_cases) (use 1 w2 in \<open>auto intro!: exI [of _ k]\<close>)
      next
        case (2 cur w3)
        from 2(1) obtain fs3 where cur: "cur = latest_row (session_specifications sid w)"
          and w3: "w3 = w2\<lparr>sql_faults := fs3\<rparr>"
          by (cases rule: sql_select_cases) (auto simp: sp2)
        have cv: "(case cur of None \<Rightarrow> - 1 | Some r \<Rightarrow> sp_version r) = current_version sid w"
          by (simp add: cur current_version_def)
        from 2(2) show ?thesis unfolding cv
        proof (cases rule: await_cases)
          case (1 e)
          show ?thesis
          proof (cases "version (specification_st st) = current_version sid w")
            case True
            with 1(1) show ?thesis by (simp add: resolve_def split: if_splits)
          next
            case False
            with 1(1) have "insert_specification (snapshot_row rid sid st now) w3 = (Inl e, w')"
              by (simp add: snapshot_row_def)
            then show ?thesis unfolding insert_specification_def
              by (cases rule: sql_update_cases) (use 1(2) w2 w3 in \<open>auto intro!: exI [of _ k]\<close>)
          qed
        next
          case (2 u w4)
          have w4: "messages w4 = messages w2" "sessions w4 = sessions w2" "localStorage w4 = localStorage w2"
            "specifications w4 = specifications w \<or>
               (specifications w4 = specifications w @ [snapshot_row rid sid st now] \<and>
                version (specification_st st) \<noteq> current_version sid w)"
            "version (specification_st st) \<noteq> current_version sid w \<longrightarrow>
               specifications w4 = specifications w @ [snapshot_row rid sid st now]"
          proof -
            show "messages w4 = messages w2" "sessions w4 = sessions w2" "localStorage w4 = localStorage w2"
              using 2(1) w3 unfolding insert_specification_def
              by (auto simp: resolve_def split: if_splits elim!: sql_update_cases)
            show "specifications w4 = specifications w \<or>
               (specifications w4 = specifications w @ [snapshot_row rid sid st now] \<and>
                version (specification_st st) \<noteq> current_version sid w)"
              using 2(1) w3 w2 unfolding insert_specification_def
              by (auto simp: resolve_def snapshot_row_def split: if_splits elim!: sql_update_cases)
            show "version (specification_st st) \<noteq> current_version sid w \<longrightarrow>
               specifications w4 = specifications w @ [snapshot_row rid sid st now]"
              using 2(1) w3 w2 unfolding insert_specification_def
              by (auto simp: resolve_def snapshot_row_def split: if_splits elim!: sql_update_cases)
          qed
          from updateLastAccessedTime_effect [OF 2(2)] w4 w2 show ?thesis
            by (auto intro!: exI [of _ k])
        qed
      qed
    qed
  qed
  then show "\<exists>k. messages w' = messages w @ map (message_row_of sid) (take k (new_messages sid st w)) \<and>
             (r = Inr () \<longrightarrow> length (new_messages sid st w) \<le> k)"
    and "specifications w' = specifications w \<or>
         (specifications w' = specifications w @ [snapshot_row rid sid st now] \<and>
          version (specification_st st) \<noteq> current_version sid w)"
    and "r = Inr () \<Longrightarrow> version (specification_st st) \<noteq> current_version sid w \<Longrightarrow>
         specifications w' = specifications w @ [snapshot_row rid sid st now]"
    and "localStorage w' = localStorage w"
    and "map s_id (sessions w') = map s_id (sessions w)"
    and "map magic_link_token (sessions w') = map magic_link_token (sessions w)"
    by blast+
qed

lemma latest_row_None: "latest_row rows = None \<longleftrightarrow> rows = []"
  by (induction rows) (auto split: option.splits)

lemma latest_row_Max:
  "latest_row rows = Some r \<Longrightarrow> sp_version r = Max (set (map sp_version rows))"
proof (induction rows arbitrary: r)
  case Nil
  then show ?case by simp
next
  case (Cons x rows)
  show ?case
  proof (cases "latest_row rows")
    case None
    with Cons.prems show ?thesis by (simp add: latest_row_None)
  next
    case (Some b)
    then have ne: "rows \<noteq> []" by (auto simp: latest_row_None)
    from Cons.IH [OF Some] have b: "sp_version b = Max (set (map sp_version rows))" .
    from ne have "Max (set (map sp_version (x # rows))) = max (sp_version x) (Max (set (map sp_version rows)))"
      by simp
    with Some b Cons.prems show ?thesis by (auto split: if_splits)
  qed
qed

lemma current_version_Max:
  "stored_versions sid w \<noteq> [] \<Longrightarrow> current_version sid w = Max (set (stored_versions sid w))"
  unfolding current_version_def stored_versions_def
  by (cases "latest_row (session_specifications sid w)")
     (auto simp: latest_row_None dest: latest_row_Max)

lemma save_step_versions:
  assumes "saveSessionState rid sid st now w = (r, w')"
  shows "stored_versions sid w' = stored_versions sid w \<or>
         (stored_versions sid w' = stored_versions sid w @ [version (specification_st st)] \<and>
          version (specification_st st) \<noteq> current_version sid w)"
  using saveSessionState_effect(2) [OF assms]
  by (auto simp: stored_versions_def session_specifications_def snapshot_row_def)

lemma save_all_append_only:
  "\<exists>new. specifications (save_all sid calls w) = specifications w @ new"
proof (induction calls arbitrary: w)
  case Nil
  show ?case by simp
next
  case (Cons c calls)
  obtain rid st now where c: "c = (rid, st, now)" by (cases c)
  obtain r w1 where s: "saveSessionState rid sid st now w = (r, w1)" by (cases "saveSessionState rid sid st now w")
  from saveSessionState_effect(2) [OF s] obtain n1 where "specifications w1 = specifications w @ n1" by auto
  moreover from Cons.IH [of w1] obtain n2 where "specifications (save_all sid calls w1) = specifications w1 @ n2" by blast
  ultimately show ?case using c s by simp
qed

lemma save_all_increasing:
  "sorted_wrt (<) (stored_versions sid w) \<Longrightarrow>
   sorted (stored_versions sid w @ map call_version calls) \<Longrightarrow>
   sorted_wrt (<) (stored_versions sid (save_all sid calls w))"
proof (induction calls arbitrary: w)
  case Nil
  then show ?case by simp
next
  case (Cons c calls)
  obtain rid st now where c: "c = (rid, st, now)" by (cases c)
  obtain r w1 where s: "saveSessionState rid sid st now w = (r, w1)" by (cases "saveSessionState rid sid st now w")
  let ?v = "version (specification_st st)"
  let ?vs = "stored_versions sid w"
  have cv: "call_version c = ?v" by (simp add: c call_version_def)
  from Cons.prems(2) have le: "\<forall>x \<in> set ?vs. x \<le> ?v" and rest: "sorted (?v # map call_version calls)"
    and srt: "sorted ?vs"
    by (auto simp: sorted_append cv)
  have "sorted_wrt (<) (stored_versions sid w1) \<and> sorted (stored_versions sid w1 @ map call_version calls)"
    using save_step_versions [OF s]
  proof
    assume "stored_versions sid w1 = ?vs"
    with Cons.prems show ?thesis by (auto simp: sorted_append)
  next
    assume a: "stored_versions sid w1 = ?vs @ [?v] \<and> ?v \<noteq> current_version sid w"
    have "\<forall>x \<in> set ?vs. x < ?v"
    proof
      fix x assume x: "x \<in> set ?vs"
      then have ne: "?vs \<noteq> []" by auto
      from x have "x \<le> Max (set ?vs)" by simp
      moreover have "Max (set ?vs) \<le> ?v" using le ne by simp
      moreover have "Max (set ?vs) \<noteq> ?v" using a current_version_Max [OF ne] by simp
      ultimately show "x < ?v" by linarith
    qed
    with a Cons.prems(1) rest srt le show ?thesis
      by (fastforce simp: sorted_wrt_append sorted_append)
  qed
  with Cons.IH [of w1] show ?case using c s by simp
qed

lemma save_all_single_latest:
  "single_latest (stored_versions sid w) \<Longrightarrow> single_latest (stored_versions sid (save_all sid calls w))"
proof (induction calls arbitrary: w)
  case Nil
  then show ?case by simp
next
  case (Cons c calls)
  obtain rid st now where c: "c = (rid, st, now)" by (cases c)
  obtain r w1 where s: "saveSessionState rid sid st now w = (r, w1)" by (cases "saveSessionState rid sid st now w")
  let ?v = "version (specification_st st)"
  let ?vs = "stored_versions sid w"
  have "single_latest (stored_versions sid w1)"
    using save_step_versions [OF s]
  proof
    assume "stored_versions sid w1 = ?vs"
    with Cons.prems show ?thesis by simp
  next
    assume a: "stored_versions sid w1 = ?vs @ [?v] \<and> ?v \<noteq> current_version sid w"
    show ?thesis
    proof (cases "?vs = []")
      case True
      with a show ?thesis by (simp add: single_latest_def)
    next
      case False
      with a current_version_Max [OF False] have ne: "?v \<noteq> Max (set ?vs)" by simp
      from False Cons.prems have one: "count_list ?vs (Max (set ?vs)) = 1" by (simp add: single_latest_def)
      have mx: "Max (set (?vs @ [?v])) = max ?v (Max (set ?vs))" using False by simp
      show ?thesis
      proof (cases "?v < Max (set ?vs)")
        case True
        with a one mx show ?thesis by (simp add: single_latest_def max_def)
      next
        case False
        with ne have gt: "Max (set ?vs) < ?v" by simp
        have "?v \<notin> set ?vs"
        proof
          assume "?v \<in> set ?vs"
          then have "?v \<le> Max (set ?vs)" by simp
          with gt show False by simp
        qed
        then have "count_list ?vs ?v = 0" by (simp add: count_list_0_iff)
        with a gt mx show ?thesis by (simp add: single_latest_def max_def)
      qed
    qed
  qed
  with Cons.IH [of w1] show ?case using c s by simp
qed

lemma getSession_effect:
  assumes "getSession ord sid now w = (r, w')"
  shows "messages w' = messages w" "specifications w' = specifications w"
    "localStorage w' = localStorage w"
    "map s_id (sessions w') = map s_id (sessions w)"
    "map magic_link_token (sessions w') = map magic_link_token (sessions w)"
    "r = Inr (Some s) \<Longrightarrow> conversationHistory (state s) = map row_message (ord (session_messages sid w))"
proof -
  let ?P = "messages w' = messages w \<and> specifications w' = specifications w \<and>
    localStorage w' = localStorage w \<and>
    map s_id (sessions w') = map s_id (sessions w) \<and>
    map magic_link_token (sessions w') = map magic_link_token (sessions w) \<and>
    (r = Inr (Some s) \<longrightarrow> conversationHistory (state s) = map row_message (ord (session_messages sid w)))"
  have ?P using assms unfolding getSession_def
  proof (cases rule: await_cases)
    case (1 e)
    from 1(1) show ?thesis by (cases rule: sql_select_cases) (use 1 in auto)
  next
    case (2 rows w1)
    from 2(1) obtain fs where w1: "w1 = w\<lparr>sql_faults := fs\<rparr>"
      by (cases rule: sql_select_cases) auto
    show ?thesis
    proof (cases rows)
      case Nil
      with 2(2) w1 show ?thesis by (auto simp: resolve_def)
    next
      case (Cons sessionRow rest)
      with 2(2) have "await (sql_select (\<lambda>w. ord (session_messages sid w))) (\<lambda>messagesResult.
         await (sql_select (\<lambda>w. latest_row (session_specifications sid w))) (\<lambda>specResult.
         let sessionState =
               (case specResult of
                  Some specRow \<Rightarrow>
                    \<lparr>conversationHistory = map row_message messagesResult,
                     specification_st =
                       \<lparr>spec_id = sid, version = sp_version specRow,
                        plainEnglishSummary = plain_english_summary specRow,
                        formalPRD = formal_prd specRow, lastUpdated = sp_updated_at specRow\<rparr>,
                     progress = progress_state specRow\<rparr>
                | None \<Rightarrow>
                    \<lparr>conversationHistory = map row_message messagesResult,
                     specification_st =
                       \<lparr>spec_id = sid, version = 0,
                        plainEnglishSummary = initial_summary,
                        formalPRD = initial_prd, lastUpdated = created_at sessionRow\<rparr>,
                     progress = initial_progress\<rparr>)
         in
         await (updateLastAccessedTime sid now) (\<lambda>_.
         resolve (Some
           \<lparr>session_id = s_id sessionRow, createdAt = created_at sessionRow,
            lastAccessedAt = last_accessed_at sessionRow, state = sessionState,
            magicLinkToken = or_undefined (magic_link_token sessionRow)\<rparr>)))) w1 = (r, w')" by simp
      then show ?thesis
      proof (cases rule: await_cases)
        case (1 e)
        from 1(1) show ?thesis by (cases rule: sql_select_cases) (use 1 w1 in auto)
      next
        case (2 msgs w2)
        from 2(1) obtain fs2 where msgs: "msgs = ord (session_messages sid w)" and w2: "w2 = w\<lparr>sql_faults := fs2\<rparr>"
          using w1 by (cases rule: sql_select_cases) auto
        from 2(2) show ?thesis
        proof (cases rule: await_cases)
          case (1 e)
          from 1(1) show ?thesis by (cases rule: sql_select_cases) (use 1 w2 in auto)
        next
          case (2 specResult w3)
          from 2(1) obtain fs3 where w3: "w3 = w\<lparr>sql_faults := fs3\<rparr>"
            using w2 by (cases rule: sql_select_cases) auto
          from 2(2) show ?thesis unfolding Let_def
          proof (cases rule: await_cases)
            case (1 e)
            from updateLastAccessedTime_effect [OF 1(1)] 1(2) w3 show ?thesis by simp
          next
            case (2 u w4)
            from updateLastAccessedTime_effect [OF 2(1)] 2(2) w3 msgs show ?thesis
              by (auto simp: resolve_def split: option.splits)
          qed
        qed
      qed
    qed
  qed
  then show "messages w' = messages w" "specifications w' = specifications w"
    "localStorage w' = localStorage w"
    "map s_id (sessions w') = map s_id (sessions w)"
    "map magic_link_token (sessions w') = map magic_link_token (sessions w)"
    "r = Inr (Some s) \<Longrightarrow> conversationHistory (state s) = map row_message (ord (session_messages sid w))"
    by blast+
qed

lemma message_row_of_simps [simp]:
  "m_id (message_row_of sid m) = message_id m"
  "m_session_id (message_row_of sid m) = sid"
  "m_timestamp (message_row_of sid m) = timestamp m"
  by (simp_all add: message_row_of_def)

lemma new_messages_fresh:
  "m \<in> set (new_messages sid st w) \<Longrightarrow> message_id m \<notin> set (stored_ids sid w)"
  by (simp add: new_messages_def stored_ids_def)

lemma new_messages_distinct:
  "distinct (map message_id (conversationHistory st)) \<Longrightarrow>
   distinct (map message_id (new_messages sid st w))"
  by (simp add: new_messages_def distinct_map_filter)

lemma save_step_messages:
  assumes "saveSessionState rid sid st now w = (r, w')"
  obtains k where "messages w' = messages w @ map (message_row_of sid) (take k (new_messages sid st w))"
    and "session_messages sid w' = session_messages sid w @ map (message_row_of sid) (take k (new_messages sid st w))"
    and "r = Inr () \<Longrightarrow> take k (new_messages sid st w) = new_messages sid st w"
proof -
  from saveSessionState_effect(1) [OF assms] obtain k where
    k: "messages w' = messages w @ map (message_row_of sid) (take k (new_messages sid st w))"
       "r = Inr () \<longrightarrow> length (new_messages sid st w) \<le> k" by blast
  have "session_messages sid w' = session_messages sid w @ map (message_row_of sid) (take k (new_messages sid st w))"
    by (simp add: session_messages_def k(1) filter_map comp_def)
  with k that show thesis by simp
qed

lemma save_step_distinct:
  assumes "saveSessionState rid sid st now w = (r, w')"
    and "distinct (stored_ids sid w)" "distinct (map message_id (conversationHistory st))"
  shows "distinct (stored_ids sid w')"
proof -
  from assms(1) obtain k where
    k: "session_messages sid w' = session_messages sid w @ map (message_row_of sid) (take k (new_messages sid st w))"
    by (rule save_step_messages)
  have d: "distinct (map message_id (take k (new_messages sid st w)))"
    using new_messages_distinct [OF assms(3), of sid w] by (simp add: take_map [symmetric] distinct_take)
  have f: "\<forall>m \<in> set (take k (new_messages sid st w)). message_id m \<notin> set (stored_ids sid w)"
    using new_messages_fresh by (metis in_set_takeD)
  have e: "stored_ids sid w' = stored_ids sid w @ map message_id (take k (new_messages sid st w))"
    by (simp add: stored_ids_def k comp_def)
  have "set (stored_ids sid w) \<inter> set (map message_id (take k (new_messages sid st w))) = {}"
    using f by auto
  with assms(2) d show ?thesis unfolding e by simp
qed

lemma save_all_distinct:
  "distinct (stored_ids sid w) \<Longrightarrow>
   \<forall>c \<in> set calls. distinct (map message_id (conversationHistory (fst (snd c)))) \<Longrightarrow>
   distinct (stored_ids sid (save_all sid calls w))"
proof (induction calls arbitrary: w)
  case Nil
  then show ?case by simp
next
  case (Cons c calls)
  obtain rid st now where c: "c = (rid, st, now)" by (cases c)
  obtain r w1 where s: "saveSessionState rid sid st now w = (r, w1)" by (cases "saveSessionState rid sid st now w")
  from Cons.prems c have "distinct (map message_id (conversationHistory st))" by simp
  from save_step_distinct [OF s Cons.prems(1) this] Cons.IH [of w1] Cons.prems(2)
  show ?case using c s by simp
qed

lemma save_all_written:
  "\<exists>new. messages (save_all sid calls w) = messages w @ new \<and>
         (\<forall>r \<in> set new. m_session_id r = sid \<and> m_id r \<notin> set (stored_ids sid w))"
proof (induction calls arbitrary: w)
  case Nil
  show ?case by simp
next
  case (Cons c calls)
  obtain rid st now where c: "c = (rid, st, now)" by (cases c)
  obtain r w1 where s: "saveSessionState rid sid st now w = (r, w1)" by (cases "saveSessionState rid sid st now w")
  from s obtain k where
    k: "messages w1 = messages w @ map (message_row_of sid) (take k (new_messages sid st w))"
       "session_messages sid w1 = session_messages sid w @ map (message_row_of sid) (take k (new_messages sid st w))"
    by (rule save_step_messages)
  let ?n1 = "map (message_row_of sid) (take k (new_messages sid st w))"
  have n1: "\<forall>r \<in> set ?n1. m_session_id r = sid \<and> m_id r \<notin> set (stored_ids sid w)"
    using new_messages_fresh by (auto dest!: in_set_takeD)
  from Cons.IH [of w1] obtain n2 where
    n2: "messages (save_all sid calls w1) = messages w1 @ n2"
        "\<forall>r \<in> set n2. m_session_id r = sid \<and> m_id r \<notin> set (stored_ids sid w1)" by blast
  have "set (stored_ids sid w) \<subseteq> set (stored_ids sid w1)" by (auto simp: stored_ids_def k(2))
  with n2(2) have "\<forall>r \<in> set n2. m_session_id r = sid \<and> m_id r \<notin> set (stored_ids sid w)" by blast
  with n1 have "\<forall>r \<in> set (?n1 @ n2). m_session_id r = sid \<and> m_id r \<notin> set (stored_ids sid w)"
    by (metis Un_iff set_append)
  moreover have "messages (save_all sid (c # calls) w) = messages w @ (?n1 @ n2)"
    using c s k(1) n2(1) by simp
  ultimately show ?case by blast
qed

lemma resave_writes_nothing:
  assumes "saveSessionState rid sid st now w = (Inr (), w1)"
  shows "messages (snd (saveSessionState rid' sid st now' w1)) = messages w1"
proof -
  from assms obtain k where
    k: "session_messages sid w1 = session_messages sid w @ map (message_row_of sid) (take k (new_messages sid st w))"
       "take k (new_messages sid st w) = new_messages sid st w"
    by (rule save_step_messages) simp
  have "message_id m \<in> set (stored_ids sid w1)" if "m \<in> set (conversationHistory st)" for m
  proof (cases "message_id m \<in> set (stored_ids sid w)")
    case True
    then show ?thesis by (auto simp: stored_ids_def k(1))
  next
    case False
    with that have "m \<in> set (new_messages sid st w)" by (simp add: new_messages_def stored_ids_def)
    then show ?thesis by (auto simp: stored_ids_def k)
  qed
  then have e: "new_messages sid st w1 = []"
    by (auto simp: new_messages_def stored_ids_def filter_empty_conv)
  obtain r w2 where s2: "saveSessionState rid' sid st now' w1 = (r, w2)"
    by (cases "saveSessionState rid' sid st now' w1")
  from s2 obtain k' where "messages w2 = messages w1 @ map (message_row_of sid) (take k' (new_messages sid st w1))"
    by (rule save_step_messages)
  with e s2 show ?thesis by simp
qed

lemma timestamp_order_by_timestamp: "timestamp_order by_timestamp"
  by (simp add: timestamp_order_def by_timestamp_def)

lemma sorted_permutation_unique:
  assumes "mset xs = mset ys" "sorted (map f xs)" "sorted_wrt (<) (map f ys)"
  shows "xs = (ys :: 'a list)" 
proof -
  have "mset (map f xs) = mset (map f ys)" using assms(1) by simp
  then have s: "set (map f xs) = set (map f ys)" and d: "distinct (map f xs) \<longleftrightarrow> distinct (map f ys)"
    by (metis set_mset_mset, metis mset_eq_imp_distinct_iff)
  have dy: "distinct (map f ys)" and sy: "sorted (map f ys)"
    using assms(3) by (auto simp: strict_sorted_iff)
  from sorted_distinct_set_unique [OF assms(2) _ sy dy s] d dy have m: "map f xs = map f ys" by simp
  have "inj_on f (set xs \<union> set ys)"
    using dy assms(1) by (metis distinct_map mset_eq_setD sup.idem)
  with m show ?thesis by (simp add: inj_on_map_eq_map)
qed

lemma row_message_simps [simp]:
  "message_id (row_message r) = m_id r" "timestamp (row_message r) = m_timestamp r"
  by (simp_all add: row_message_def)

text \<open>
  C5, amended. For every sequence of calls of \<^verbatim>\<open>saveSessionState\<close> whose states have
  overlapping message sets, each history free of duplicate ids, and whatever statements
  fail: only messages whose ids are not yet stored for the session are written, and saving
  again a state that was saved writes no message; a \<^verbatim>\<open>getSession\<close> that follows
  returns the stored messages without duplicate ids, in ascending order of timestamp. That
  is the order of insertion when the timestamps increase strictly in that order; rows of
  equal timestamp come as the store orders them.
\<close>

theorem saved_messages_read_back:
  assumes "timestamp_order ord"
    and "distinct (stored_ids sid w)"
    and "\<forall>c \<in> set calls. distinct (map message_id (conversationHistory (fst (snd c))))"
    and "getSession ord sid now (save_all sid calls w) = (Inr (Some s), w')"
  shows "(\<exists>new. messages (save_all sid calls w) = messages w @ new \<and>
            (\<forall>r \<in> set new. m_session_id r = sid \<and> m_id r \<notin> set (stored_ids sid w))) \<and>
         (\<forall>rid st t w1 rid' t'. saveSessionState rid sid st t w = (Inr (), w1) \<longrightarrow>
            messages (snd (saveSessionState rid' sid st t' w1)) = messages w1) \<and>
         distinct (map message_id (conversationHistory (state s))) \<and>
         sorted (map timestamp (conversationHistory (state s))) \<and>
         mset (conversationHistory (state s))
           = mset (map row_message (session_messages sid (save_all sid calls w))) \<and>
         (sorted_wrt (<) (map m_timestamp (session_messages sid (save_all sid calls w))) \<longrightarrow>
            conversationHistory (state s)
              = map row_message (session_messages sid (save_all sid calls w)))"
proof -
  let ?W = "save_all sid calls w"
  let ?rows = "session_messages sid ?W"
  have h: "conversationHistory (state s) = map row_message (ord ?rows)"
    by (rule getSession_effect(6) [OF assms(4)]) simp
  from assms(1) have perm: "mset (ord ?rows) = mset ?rows"
    and srt: "sorted (map m_timestamp (ord ?rows))"
    by (simp_all add: timestamp_order_def)
  have d: "distinct (map m_id ?rows)"
    using save_all_distinct [OF assms(2,3)] by (simp add: stored_ids_def)
  have "mset (map m_id (ord ?rows)) = mset (map m_id ?rows)" using perm by simp
  with d have d': "distinct (map m_id (ord ?rows))" by (metis mset_eq_imp_distinct_iff)
  have 1: "distinct (map message_id (conversationHistory (state s)))"
    using d' by (simp add: h comp_def)
  have 2: "sorted (map timestamp (conversationHistory (state s)))"
    using srt by (simp add: h comp_def)
  have 3: "mset (conversationHistory (state s)) = mset (map row_message ?rows)"
    using perm by (simp add: h)
  have 4: "conversationHistory (state s) = map row_message ?rows"
    if "sorted_wrt (<) (map m_timestamp ?rows)"
    using sorted_permutation_unique [OF perm srt that] by (simp add: h)
  from save_all_written [of sid calls w] resave_writes_nothing 1 2 3 4 show ?thesis
    by blast
qed












section \<open>Claims about the session manager\<close>

lemmas store_defs = await_def resolve_def reject_def sql_select_def sql_update_def sql_def
  insert_session_def insert_message_def insert_specification_def
  createSession_def getSession_def saveSessionState_def updateLastAccessedTime_def
  generateMagicLink_def restoreSessionFromMagicLink_def
  session_messages_def session_specifications_def empty_world_def
  message_row_of_def row_message_def or_undefined_def Let_def

lemma demo_world_eq:
  "demo_world = \<lparr>sessions = [\<lparr>s_id = js ''s1'', created_at = 1, last_accessed_at = 1, magic_link_token = None, status = Active\<rparr>],
     messages = [],
     specifications = [\<lparr>sp_id = js ''r1'', sp_session_id = js ''s1'', sp_version = 0,
        plain_english_summary = initial_summary, formal_prd = initial_prd, progress_state = initial_progress,
        sp_created_at = 1, sp_updated_at = 1\<rparr>],
     sql_faults = [], localStorage = None\<rparr>"
  by (simp add: demo_world_def store_defs)

lemma demo_versions: "stored_versions (js ''s1'') demo_world = [0]"
  by (simp add: demo_world_eq stored_versions_def session_specifications_def)

text \<open>
  C7. The claim: after \<^verbatim>\<open>createSession\<close>, \<^verbatim>\<open>getSession\<close> returns a specification
  of version 0 in which every list field of the data model is empty and every text field
  is the empty string. The version is 0 and the history is empty, but the summary that
  \<^verbatim>\<open>createSession\<close> writes has the members \<^verbatim>\<open>overview\<close>, \<^verbatim>\<open>keyFeatures\<close>,
  \<^verbatim>\<open>targetUsers\<close> and \<^verbatim>\<open>integrations\<close> only: \<^verbatim>\<open>flows\<close>,
  \<^verbatim>\<open>rulesAndConstraints\<close>, \<^verbatim>\<open>nonFunctional\<close> and \<^verbatim>\<open>mvpDefinition\<close>, which the
  type \<^verbatim>\<open>PlainEnglishSummary\<close> requires, are missing, not empty.
\<close>

theorem create_then_get_summary:
  "\<exists>s w. getSession ord sessionId t1 (snd (createSession sessionId specRowId t0 empty_world))
            = (Inr (Some s), w) \<and>
      conversationHistory (state s) = map row_message (ord []) \<and>
      version (specification_st (state s)) = 0 \<and>
      plainEnglishSummary (specification_st (state s))
        = JObject [(js ''overview'', JString []), (js ''keyFeatures'', JArray []),
                   (js ''targetUsers'', JString []), (js ''integrations'', JArray [])] \<and>
      get_prop (plainEnglishSummary (specification_st (state s))) (js ''flows'') = None \<and>
      get_prop (plainEnglishSummary (specification_st (state s))) (js ''rulesAndConstraints'') = None \<and>
      get_prop (plainEnglishSummary (specification_st (state s))) (js ''nonFunctional'') = None \<and>
      get_prop (plainEnglishSummary (specification_st (state s))) (js ''mvpDefinition'') = None \<and>
      formalPRD (specification_st (state s))
        = JObject [(js ''introduction'', JString []), (js ''glossary'', JObject []),
                   (js ''requirements'', JArray []), (js ''nonFunctionalRequirements'', JArray [])]"
  by (simp add: store_defs initial_summary_def initial_prd_def js_def)

text \<open>
  C4. The claim: whatever the sequence of calls of \<^verbatim>\<open>saveSessionState\<close>, the history
  holds at most one snapshot of each version. The guard compares with the highest stored
  version only: after a save of version 1, a save of version 0 stores version 0 again.
\<close>

theorem older_version_stored_twice:
  "stored_versions (js ''s1'')
     (save_all (js ''s1'') [(js ''r2'', state_at 1 [], 6), (js ''r3'', state_at 0 [], 7)] demo_world)
   = [0, 1, 0]"
  by (simp add: demo_world_eq stored_versions_def store_defs state_at_def js_def blank_spec_def)

text \<open>
  C4, amended. For every session and every sequence of calls of \<^verbatim>\<open>saveSessionState\<close>,
  whatever statements fail: the stored snapshots stay as they are and new ones come after
  them; a call whose version equals the highest stored version inserts no snapshot; the
  highest stored version stays the version of exactly one snapshot; and the history holds
  at most one snapshot of each version when no call carries a version below those before
  it.
\<close>

theorem specification_history_append_only:
  "(\<exists>new. specifications (save_all sid calls w) = specifications w @ new) \<and>
   (stored_versions sid w \<noteq> [] \<and>
    version (specification_st st) = Max (set (stored_versions sid w)) \<longrightarrow>
      specifications (snd (saveSessionState rid sid st now w)) = specifications w) \<and>
   (single_latest (stored_versions sid w) \<longrightarrow>
      single_latest (stored_versions sid (save_all sid calls w))) \<and>
   (sorted_wrt (<) (stored_versions sid w) \<and>
    sorted (stored_versions sid w @ map call_version calls) \<longrightarrow>
      distinct (stored_versions sid (save_all sid calls w)))"
proof (intro conjI impI)
  show "\<exists>new. specifications (save_all sid calls w) = specifications w @ new"
    by (rule save_all_append_only)
next
  assume a: "stored_versions sid w \<noteq> [] \<and>
    version (specification_st st) = Max (set (stored_versions sid w))"
  obtain r w' where s: "saveSessionState rid sid st now w = (r, w')"
    by (cases "saveSessionState rid sid st now w")
  from a current_version_Max [of sid w] have "version (specification_st st) = current_version sid w"
    by simp
  with saveSessionState_effect(2) [OF s] s
  show "specifications (snd (saveSessionState rid sid st now w)) = specifications w" by simp
next
  assume "single_latest (stored_versions sid w)"
  then show "single_latest (stored_versions sid (save_all sid calls w))"
    by (rule save_all_single_latest)
next
  assume "sorted_wrt (<) (stored_versions sid w) \<and>
    sorted (stored_versions sid w @ map call_version calls)"
  then have "sorted_wrt (<) (stored_versions sid (save_all sid calls w))"
    using save_all_increasing by blast
  then show "distinct (stored_versions sid (save_all sid calls w))"
    by (simp add: strict_sorted_iff)
qed

theorem specification_history_append_only_witness:
  "stored_versions (js ''s1'') demo_world \<noteq> [] \<and>
   version (specification_st (state_at 0 [msg1])) = Max (set (stored_versions (js ''s1'') demo_world)) \<and>
   single_latest (stored_versions (js ''s1'') demo_world) \<and>
   sorted_wrt (<) (stored_versions (js ''s1'') demo_world) \<and>
   sorted (stored_versions (js ''s1'') demo_world
           @ map call_version [(js ''r2'', state_at 0 [msg1], 6), (js ''r3'', state_at 1 [msg1], 7),
                               (js ''r4'', state_at 1 [msg1], 8)]) \<and>
   specifications (snd (saveSessionState (js ''r2'') (js ''s1'') (state_at 0 [msg1]) 6 demo_world))
     = specifications demo_world \<and>
   single_latest (stored_versions (js ''s1'') (save_all (js ''s1'')
       [(js ''r2'', state_at 0 [msg1], 6), (js ''r3'', state_at 1 [msg1], 7),
        (js ''r4'', state_at 1 [msg1], 8)] demo_world)) \<and>
   distinct (stored_versions (js ''s1'') (save_all (js ''s1'')
       [(js ''r2'', state_at 0 [msg1], 6), (js ''r3'', state_at 1 [msg1], 7),
        (js ''r4'', state_at 1 [msg1], 8)] demo_world))"
proof -
  let ?calls = "[(js ''r2'', state_at 0 [msg1], 6), (js ''r3'', state_at 1 [msg1], 7),
                 (js ''r4'', state_at 1 [msg1], 8)]"
  have h: "stored_versions (js ''s1'') demo_world \<noteq> []"
    "version (specification_st (state_at 0 [msg1])) = Max (set (stored_versions (js ''s1'') demo_world))"
    "single_latest (stored_versions (js ''s1'') demo_world)"
    "sorted_wrt (<) (stored_versions (js ''s1'') demo_world)"
    "sorted (stored_versions (js ''s1'') demo_world @ map call_version ?calls)"
    by (simp_all add: demo_versions state_at_def blank_spec_def single_latest_def call_version_def)
  from specification_history_append_only
    [of "js ''s1''" ?calls demo_world "state_at 0 [msg1]" "js ''r2''" 6] h
  show ?thesis by simp
qed

text \<open>
  C5. The claim: \<^verbatim>\<open>getSession\<close> returns the messages in the order of insertion. It
  returns them by timestamp: a message saved later with an earlier timestamp, as one that
  waited in an offline queue, is returned first.
\<close>

theorem later_message_read_first:
  "returned_history (getSession by_timestamp (js ''s1'') 9
     (save_all (js ''s1'')
        [(js ''r2'', state_at 0 [msg1], 6), (js ''r3'', state_at 0 [msg1, msg2], 7)] demo_world))
   = Some [msg2, msg1] \<and>
   map row_message (messages (save_all (js ''s1'')
        [(js ''r2'', state_at 0 [msg1], 6), (js ''r3'', state_at 0 [msg1, msg2], 7)] demo_world))
   = [msg1, msg2]"
  by (simp add: demo_world_eq returned_history_def store_defs state_at_def js_def blank_spec_def
      msg1_def msg2_def by_timestamp_def)

theorem saved_messages_read_back_witness:
  "timestamp_order by_timestamp \<and>
   distinct (stored_ids (js ''s1'') demo_world) \<and>
   distinct (map message_id (conversationHistory (state_at 0 [msg2]))) \<and>
   distinct (map message_id (conversationHistory (state_at 0 [msg2, msg1]))) \<and>
   (\<exists>s w'. getSession by_timestamp (js ''s1'') 9
       (save_all (js ''s1'')
          [(js ''r2'', state_at 0 [msg2], 6), (js ''r3'', state_at 0 [msg2, msg1], 7)] demo_world)
       = (Inr (Some s), w') \<and>
     distinct (map message_id (conversationHistory (state s))) \<and>
     sorted (map timestamp (conversationHistory (state s))) \<and>
     conversationHistory (state s) = [msg2, msg1])"
proof -
  let ?calls = "[(js ''r2'', state_at 0 [msg2], 6), (js ''r3'', state_at 0 [msg2, msg1], 7)]"
  let ?W = "save_all (js ''s1'') ?calls demo_world"
  have h1: "timestamp_order by_timestamp" by (rule timestamp_order_by_timestamp)
  have h2: "distinct (stored_ids (js ''s1'') demo_world)"
    by (simp add: stored_ids_def session_messages_def demo_world_eq)
  have h3: "\<forall>c \<in> set ?calls. distinct (map message_id (conversationHistory (fst (snd c))))"
    by (simp add: state_at_def msg1_def msg2_def js_def)
  have rows: "session_messages (js ''s1'') ?W
      = [message_row_of (js ''s1'') msg2, message_row_of (js ''s1'') msg1]"
    by (simp add: demo_world_eq store_defs state_at_def js_def blank_spec_def msg1_def msg2_def)
  have "\<exists>s w'. getSession by_timestamp (js ''s1'') 9 ?W = (Inr (Some s), w')"
    by (simp add: demo_world_eq store_defs state_at_def js_def blank_spec_def msg1_def msg2_def)
  then obtain s w' where h4: "getSession by_timestamp (js ''s1'') 9 ?W = (Inr (Some s), w')"
    by blast
  have inc: "sorted_wrt (<) (map m_timestamp (session_messages (js ''s1'') ?W))"
    unfolding rows by (simp add: msg1_def msg2_def)
  have rm: "map row_message (session_messages (js ''s1'') ?W) = [msg2, msg1]"
    unfolding rows by (simp add: row_message_def message_row_of_def msg1_def msg2_def)
  note rb = saved_messages_read_back [OF h1 h2 h3 h4]
  from rb have d: "distinct (map message_id (conversationHistory (state s)))"
    and so: "sorted (map timestamp (conversationHistory (state s)))" by blast+
  from rb inc
  have "conversationHistory (state s) = map row_message (session_messages (js ''s1'') ?W)"
    by blast
  with rm have "conversationHistory (state s) = [msg2, msg1]" by simp
  moreover have "distinct (map message_id (conversationHistory (state_at 0 [msg2])))"
    "distinct (map message_id (conversationHistory (state_at 0 [msg2, msg1])))"
    using h3 by simp_all
  ultimately show ?thesis using d so h1 h2 h4 by blast
qed












end
